theory Spec2Isabelle
  imports Main "HOL-Library.Word"
begin

section \<open>JavaScript strings\<close>

text \<open>
  A JavaScript string is a sequence of UTF-16 code units.  Its
  \<^verbatim>\<open>length\<close>, \<^verbatim>\<open>substring\<close>, \<^verbatim>\<open>slice\<close>,
  \<^verbatim>\<open>indexOf\<close>, \<^verbatim>\<open>split\<close>, \<^verbatim>\<open>includes\<close>, and the
  regular expressions without the flag \<^verbatim>\<open>u\<close> count and compare code
  units.  \<open>js\<close> writes a string literal of the source whose characters are
  one code unit each, and \<open>cu\<close> one such character; the two emoji of the
  sources are written out as code units where they are used.
\<close>

type_synonym code_unit = "16 word"

type_synonym js_string = "code_unit list"

definition cu :: "char \<Rightarrow> code_unit" where
  "cu c = of_nat (of_char c)"

definition js :: "string \<Rightarrow> js_string" where
  "js s = map cu s"

text \<open>
  \<^verbatim>\<open>toLowerCase\<close> maps the code points of the string with the
  lower-case mapping of Unicode.  A code point of the ASCII range is one code
  unit and gives one code unit, whatever stands around it: \<open>A\<close>..\<open>Z\<close>
  give \<open>a\<close>..\<open>z\<close>, the others give themselves.  What the other code
  units give depends on the Unicode version of the runtime, on surrogate pairs
  and, for the capital sigma, on the letters around it.  That part is a
  parameter of the model: \<open>lc s i\<close> is what the code unit at position
  \<open>i\<close> of \<open>s\<close> contributes to the result (for the function of the
  runtime: the lower-case mapping of the code point that begins at \<open>i\<close>,
  and nothing for the second half of a surrogate pair).  Every theorem holds
  for every such mapping.
\<close>

type_synonym lower_case_mapping = "js_string \<Rightarrow> nat \<Rightarrow> js_string"

definition toLowerCase_ascii :: "code_unit \<Rightarrow> code_unit" where
  "toLowerCase_ascii c = (if 0x41 \<le> c \<and> c \<le> 0x5A then c + 0x20 else c)"

definition toLowerCase :: "lower_case_mapping \<Rightarrow> js_string \<Rightarrow> js_string" where
  "toLowerCase lc s =
     concat (map (\<lambda>i. if s ! i < 0x80 then [toLowerCase_ascii (s ! i)] else lc s i)
               [0..<length s])"

text \<open>
  White space for \<^verbatim>\<open>trim\<close> and for the class \<^verbatim>\<open>\s\<close> of a
  regular expression: the white space and the line terminators of ECMAScript,
  which are tab, line feed, vertical tab, form feed, carriage return, space,
  the no-break space, the byte order mark, the line and paragraph separators
  and the other space separators of Unicode.  All of them are single code
  units.
\<close>

definition white_space_units :: "code_unit list" where
  "white_space_units =
     [0x0009, 0x000A, 0x000B, 0x000C, 0x000D, 0x0020, 0x00A0, 0x1680,
      0x2000, 0x2001, 0x2002, 0x2003, 0x2004, 0x2005, 0x2006, 0x2007, 0x2008, 0x2009, 0x200A,
      0x2028, 0x2029, 0x202F, 0x205F, 0x3000, 0xFEFF]"

definition is_whitespace :: "code_unit \<Rightarrow> bool" where
  "is_whitespace c = (c \<in> set white_space_units)"

definition trim :: "js_string \<Rightarrow> js_string" where
  "trim s = rev (dropWhile is_whitespace (rev (dropWhile is_whitespace s)))"

text \<open>
  \<^verbatim>\<open>s.split(d)\<close> for a separator of one code unit: the pieces between
  the separators, in order; a string without separator is its own single piece.
\<close>

fun split_on :: "code_unit \<Rightarrow> js_string \<Rightarrow> js_string list" where
  "split_on d [] = [[]]"
| "split_on d (c # cs) =
     (if c = d then [] # split_on d cs
      else (case split_on d cs of [] \<Rightarrow> [[c]] | p # ps \<Rightarrow> (c # p) # ps))"

text \<open>\<^verbatim>\<open>s.indexOf(c)\<close>: the position of the first occurrence, or \<open>-1\<close>.\<close>

fun indexOf :: "code_unit \<Rightarrow> js_string \<Rightarrow> int" where
  "indexOf d [] = -1"
| "indexOf d (c # cs) = (if c = d then 0 else (let i = indexOf d cs in if i < 0 then -1 else i + 1))"

text \<open>
  \<^verbatim>\<open>s.slice(k)\<close> with one argument: a negative \<open>k\<close> counts from the end
  (and is clamped at the start of the string), a non-negative one from the
  start.
\<close>

definition slice_from :: "int \<Rightarrow> js_string \<Rightarrow> js_string" where
  "slice_from k s = (if k < 0 then drop (nat (int (length s) + k)) s else drop (nat k) s)"

text \<open>\<^verbatim>\<open>s.includes(sub)\<close>.\<close>

fun includes_str :: "js_string \<Rightarrow> js_string \<Rightarrow> bool" where
  "includes_str sub [] = (sub = [])"
| "includes_str sub (c # cs) = (take (length sub) (c # cs) = sub \<or> includes_str sub cs)"

text \<open>
  \<^verbatim>\<open>n.toString()\<close> for a non-negative integer \<open>n\<close>: its decimal digits.
  (JavaScript prints integers in plain decimal below \<open>10\<^sup>2\<^sup>1\<close>.)
\<close>

definition digit_unit :: "nat \<Rightarrow> code_unit" where
  "digit_unit d = of_nat (48 + d)"

function Number_toString :: "nat \<Rightarrow> js_string" where
  "Number_toString n =
     (if n < 10 then [digit_unit n] else Number_toString (n div 10) @ [digit_unit (n mod 10)])"
  by pat_completeness auto
termination
  by (relation "measure (\<lambda>n. n)") auto

declare Number_toString.simps [simp del]

text \<open>\<^verbatim>\<open>parts.join(d)\<close> for a separator of one code unit.\<close>

fun join_with :: "code_unit \<Rightarrow> js_string list \<Rightarrow> js_string" where
  "join_with d [] = []"
| "join_with d [p] = p"
| "join_with d (p # q # ps) = p @ d # join_with d (q # ps)"

text \<open>
  A mapping for concrete inputs: it leaves every code unit outside ASCII as it
  is.
\<close>

definition keep_other_units :: lower_case_mapping where
  "keep_other_units s i = [s ! i]"

section \<open>Gradio endpoint cache (gradio-cache.ts)\<close>

text \<open>
  The module keeps two process-wide in-memory caches, one for space metadata
  fetched from the Hub API and one for the tool schemas fetched from the
  Gradio endpoints.  Both are JavaScript \<^verbatim>\<open>Map\<close> objects keyed by
  the space name, together with hit and miss counters.  The caches are never
  iterated, so a partial function from names to entries models the map; the
  counters are natural numbers.

  The entries of the metadata cache are objects: \<^verbatim>\<open>updateTimestamp\<close>
  writes into the entry, and \<^verbatim>\<open>fetchSpaceMetadata\<close> keeps a reference
  to the entry it has read while it waits for the network.  So the objects that
  are stored under a key are told apart: they are numbered in the order in
  which \<^verbatim>\<open>set\<close> stored them.  \<open>mc_cache\<close> is the Map, holding for
  each key its entry, the object stored last, as it is now; \<open>mc_stored\<close>
  is the number of that object; \<open>mc_replaced\<close> holds the objects stored
  earlier under the key, as they were when \<^verbatim>\<open>set\<close> replaced them
  (nothing writes into an object that has left the Map).  Every caller of
  \<^verbatim>\<open>set\<close> in the sources passes an object that it has just built.

  \<^verbatim>\<open>Date.now()\<close> is an input of every operation that reads the clock:
  the caller of the model supplies the value the clock shows at that moment, in
  milliseconds, as an integer.  The time-to-live values come from
  \<^verbatim>\<open>parseInt\<close> on environment variables; they are integers here
  (a value that fails to parse, \<^verbatim>\<open>NaN\<close>, is not represented).
\<close>

record CACHE_CONFIG =
  SPACE_METADATA_TTL :: int
  SCHEMA_TTL :: int
  DISCOVERY_CONCURRENCY :: int
  SPACE_INFO_TIMEOUT :: int
  SCHEMA_TIMEOUT :: int

definition default_config :: CACHE_CONFIG where
  "default_config =
     \<lparr>SPACE_METADATA_TTL = 300000, SCHEMA_TTL = 300000, DISCOVERY_CONCURRENCY = 10,
      SPACE_INFO_TIMEOUT = 5000, SCHEMA_TIMEOUT = 7500\<rparr>"

record runtime_info =
  stage :: "js_string option"
  hardware :: "js_string option"

text \<open>
  \<^verbatim>\<open>CachedSpaceMetadata\<close>.  The field \<^verbatim>\<open>_id\<close> is \<open>m_id\<close>,
  \<^verbatim>\<open>private\<close> is \<open>m_private\<close>; the other fields keep their names
  behind the prefix that tells the two record types of the module apart.
\<close>

record CachedSpaceMetadata =
  m_id :: js_string
  m_name :: js_string
  m_subdomain :: js_string
  m_emoji :: js_string
  m_private :: bool
  m_sdk :: js_string
  m_runtime :: "runtime_info option"
  m_etag :: "js_string option"
  m_fetchedAt :: int

record Tool =
  tool_name :: js_string
  tool_description :: js_string
  tool_properties :: "(js_string \<times> js_string) list"
  tool_required :: "js_string list"
  tool_schema_description :: "js_string option"

record CachedSchema =
  s_tools :: "Tool list"
  s_fetchedAt :: int

record SpaceMetadataCache =
  mc_cache :: "js_string \<rightharpoonup> CachedSpaceMetadata"
  mc_hits :: nat
  mc_misses :: nat
  mc_etagRevalidations :: nat
  mc_stored :: "js_string \<Rightarrow> nat"
  mc_replaced :: "js_string \<Rightarrow> nat \<rightharpoonup> CachedSpaceMetadata"

record SchemaCache =
  sc_cache :: "js_string \<rightharpoonup> CachedSchema"
  sc_hits :: nat
  sc_misses :: nat

definition SpaceMetadataCache_empty :: SpaceMetadataCache where
  "SpaceMetadataCache_empty =
     \<lparr>mc_cache = Map.empty, mc_hits = 0, mc_misses = 0, mc_etagRevalidations = 0,
      mc_stored = (\<lambda>spaceName. 0), mc_replaced = (\<lambda>spaceName. Map.empty)\<rparr>"

definition SchemaCache_empty :: SchemaCache where
  "SchemaCache_empty = \<lparr>sc_cache = Map.empty, sc_hits = 0, sc_misses = 0\<rparr>"

text \<open>
  \<^verbatim>\<open>SpaceMetadataCache.get\<close>: a missing entry and an entry whose age
  \<open>now - fetchedAt\<close> is not below the TTL both count as a miss; otherwise the
  entry is returned and counted as a hit.  The entry itself is never written.
\<close>

definition SpaceMetadataCache_get ::
  "CACHE_CONFIG \<Rightarrow> int \<Rightarrow> js_string \<Rightarrow> SpaceMetadataCache
     \<Rightarrow> CachedSpaceMetadata option \<times> SpaceMetadataCache" where
  "SpaceMetadataCache_get cfg now spaceName c =
     (case mc_cache c spaceName of
        None \<Rightarrow> (None, c\<lparr>mc_misses := mc_misses c + 1\<rparr>)
      | Some entry \<Rightarrow>
          (let age = now - m_fetchedAt entry;
               isValid = age < SPACE_METADATA_TTL cfg
           in if \<not> isValid then (None, c\<lparr>mc_misses := mc_misses c + 1\<rparr>)
              else (Some entry, c\<lparr>mc_hits := mc_hits c + 1\<rparr>)))"

definition SpaceMetadataCache_getForRevalidation ::
  "js_string \<Rightarrow> SpaceMetadataCache \<Rightarrow> CachedSpaceMetadata option" where
  "SpaceMetadataCache_getForRevalidation spaceName c = mc_cache c spaceName"

text \<open>
  \<^verbatim>\<open>SpaceMetadataCache.set\<close>: the new object is the entry of the key
  from now on; the object it replaces, if there is one, is kept under its
  number.
\<close>

definition SpaceMetadataCache_set ::
  "js_string \<Rightarrow> CachedSpaceMetadata \<Rightarrow> SpaceMetadataCache \<Rightarrow> SpaceMetadataCache" where
  "SpaceMetadataCache_set spaceName metadata c =
     c\<lparr>mc_cache := (mc_cache c)(spaceName \<mapsto> metadata),
       mc_replaced :=
         (case mc_cache c spaceName of
            None \<Rightarrow> mc_replaced c
          | Some old \<Rightarrow>
              (mc_replaced c)
                (spaceName := (mc_replaced c spaceName)(mc_stored c spaceName \<mapsto> old))),
       mc_stored := (mc_stored c)(spaceName := mc_stored c spaceName + 1)\<rparr>"

text \<open>
  \<^verbatim>\<open>SpaceMetadataCache.updateTimestamp\<close> writes the clock into the
  entry of the key, if there is one.
\<close>

definition SpaceMetadataCache_updateTimestamp ::
  "int \<Rightarrow> js_string \<Rightarrow> SpaceMetadataCache \<Rightarrow> SpaceMetadataCache" where
  "SpaceMetadataCache_updateTimestamp now spaceName c =
     (case mc_cache c spaceName of
        None \<Rightarrow> c
      | Some entry \<Rightarrow>
          c\<lparr>mc_cache := (mc_cache c)(spaceName \<mapsto> entry\<lparr>m_fetchedAt := now\<rparr>),
            mc_etagRevalidations := mc_etagRevalidations c + 1\<rparr>)"

definition SpaceMetadataCache_size :: "SpaceMetadataCache \<Rightarrow> nat" where
  "SpaceMetadataCache_size c = card (dom (mc_cache c))"

text \<open>
  What a reference to the object number \<open>k\<close> of a key reads now: the
  entry of the key if that object is still the entry, and the object as it was
  when it was replaced otherwise.
\<close>

definition SpaceMetadataCache_object ::
  "js_string \<Rightarrow> nat \<Rightarrow> SpaceMetadataCache \<Rightarrow> CachedSpaceMetadata option" where
  "SpaceMetadataCache_object spaceName k c =
     (if k = mc_stored c spaceName then mc_cache c spaceName else mc_replaced c spaceName k)"

definition SchemaCache_get ::
  "CACHE_CONFIG \<Rightarrow> int \<Rightarrow> js_string \<Rightarrow> SchemaCache \<Rightarrow> CachedSchema option \<times> SchemaCache" where
  "SchemaCache_get cfg now spaceName c =
     (case sc_cache c spaceName of
        None \<Rightarrow> (None, c\<lparr>sc_misses := sc_misses c + 1\<rparr>)
      | Some entry \<Rightarrow>
          (let age = now - s_fetchedAt entry;
               isValid = age < SCHEMA_TTL cfg
           in if \<not> isValid then (None, c\<lparr>sc_misses := sc_misses c + 1\<rparr>)
              else (Some entry, c\<lparr>sc_hits := sc_hits c + 1\<rparr>)))"

definition SchemaCache_set :: "js_string \<Rightarrow> CachedSchema \<Rightarrow> SchemaCache \<Rightarrow> SchemaCache" where
  "SchemaCache_set spaceName schema c = c\<lparr>sc_cache := (sc_cache c)(spaceName \<mapsto> schema)\<rparr>"

definition SchemaCache_size :: "SchemaCache \<Rightarrow> nat" where
  "SchemaCache_size c = card (dom (sc_cache c))"

text \<open>
  A sequence of reads: each element is the clock value and the key of one
  \<^verbatim>\<open>get\<close> call; the results are discarded, the cache object is
  threaded through.
\<close>

fun SpaceMetadataCache_gets ::
  "CACHE_CONFIG \<Rightarrow> (int \<times> js_string) list \<Rightarrow> SpaceMetadataCache \<Rightarrow> SpaceMetadataCache" where
  "SpaceMetadataCache_gets cfg [] c = c"
| "SpaceMetadataCache_gets cfg ((now, k) # rs) c =
     SpaceMetadataCache_gets cfg rs (snd (SpaceMetadataCache_get cfg now k c))"

fun SchemaCache_gets ::
  "CACHE_CONFIG \<Rightarrow> (int \<times> js_string) list \<Rightarrow> SchemaCache \<Rightarrow> SchemaCache" where
  "SchemaCache_gets cfg [] c = c"
| "SchemaCache_gets cfg ((now, k) # rs) c =
     SchemaCache_gets cfg rs (snd (SchemaCache_get cfg now k c))"

section \<open>Image-content filter (gradio-result-processor.ts)\<close>

text \<open>
  A tool result carries a \<^verbatim>\<open>content\<close> array.  An element of the
  array is an object with a \<^verbatim>\<open>type\<close> field, or anything else
  (\<^verbatim>\<open>null\<close>, a primitive).  The filter looks at nothing but the
  \<^verbatim>\<open>type\<close> field, which is a string or not; the rest of a block is
  kept as an opaque payload.  \<open>content = None\<close> stands for a
  \<^verbatim>\<open>content\<close> that is not an array.
\<close>

datatype type_field = TypeString js_string | TypeOther

datatype content_item = NonObject js_string | Block type_field js_string

record CallToolResult =
  content :: "content_item list option"
  isError :: "bool option"
  structuredContent :: "js_string option"

record ImageFilterOptions =
  enabled :: bool
  filter_toolName :: js_string
  filter_outwardFacingName :: js_string

definition omission_block :: content_item where
  "omission_block =
     Block (TypeString (js ''text''))
       (js ''Image content omitted due to client configuration (no_image_content=true).'')"

text \<open>The predicate of \<^verbatim>\<open>content.filter\<close>: does the item stay?\<close>

fun keep_item :: "lower_case_mapping \<Rightarrow> content_item \<Rightarrow> bool" where
  "keep_item lc (NonObject v) = True"
| "keep_item lc (Block (TypeString t) v) = (toLowerCase lc t \<noteq> js ''image'')"
| "keep_item lc (Block TypeOther v) = True"

definition stripImageContentFromResult ::
  "lower_case_mapping \<Rightarrow> CallToolResult \<Rightarrow> ImageFilterOptions \<Rightarrow> CallToolResult" where
  "stripImageContentFromResult lc callResult opts =
     (if \<not> enabled opts then callResult
      else case content callResult of
        None \<Rightarrow> callResult
      | Some cont \<Rightarrow>
          if length cont = 0 then callResult
          else
            (let filteredContent = filter (keep_item lc) cont
             in if length filteredContent = length cont then callResult
                else if length filteredContent = 0
                  then callResult\<lparr>content := Some (filteredContent @ [omission_block])\<rparr>
                  else callResult\<lparr>content := Some filteredContent\<rparr>))"

text \<open>A block whose \<^verbatim>\<open>type\<close> is the string \<^verbatim>\<open>image\<close>.\<close>

fun is_image_block :: "content_item \<Rightarrow> bool" where
  "is_image_block (Block (TypeString t) v) = (t = js ''image'')"
| "is_image_block _ = False"

section \<open>Gradio tool names and space identifiers (gradio-utils.ts)\<close>

text \<open>
  Modelled from the spec: the constants \<^verbatim>\<open>GRADIO_PREFIX\<close> and
  \<^verbatim>\<open>GRADIO_PRIVATE_PREFIX\<close> of \<^verbatim>\<open>shared/constants.ts\<close>, which
  is not among the sources.  The specification and the documentation comments of
  \<^verbatim>\<open>createGradioToolName\<close> and \<^verbatim>\<open>isGradioTool\<close> give them as
  \<^verbatim>\<open>gr\<close> and \<^verbatim>\<open>grp\<close>.
\<close>

definition GRADIO_PREFIX :: js_string where
  "GRADIO_PREFIX = js ''gr''"

definition GRADIO_PRIVATE_PREFIX :: js_string where
  "GRADIO_PRIVATE_PREFIX = js ''grp''"

text \<open>
  \<^verbatim>\<open>toolName.replace(/[-\s.]+/g, '_')\<close>: every maximal run of hyphens,
  white space and dots becomes one underscore.
\<close>

definition is_special :: "code_unit \<Rightarrow> bool" where
  "is_special c = (c = cu (CHR ''-'') \<or> is_whitespace c \<or> c = cu (CHR ''.''))"

function replace_special :: "js_string \<Rightarrow> js_string" where
  "replace_special [] = []"
| "replace_special (c # cs) =
     (if is_special c then cu (CHR ''_'') # replace_special (dropWhile is_special cs)
      else c # replace_special cs)"
  by pat_completeness auto
termination
  by (relation "measure length") (auto simp: length_dropWhile_le less_Suc_eq_le)

text \<open>
  The sanitized name: the expression assigned to \<^verbatim>\<open>sanitizedName\<close>
  before the length check.  An empty \<^verbatim>\<open>toolName\<close> is falsy.
\<close>

definition sanitizedName :: "lower_case_mapping \<Rightarrow> js_string \<Rightarrow> js_string" where
  "sanitizedName lc toolName =
     (if toolName \<noteq> [] then toLowerCase lc (replace_special toolName) else js ''unknown'')"

text \<open>
  \<^verbatim>\<open>createGradioToolName(toolName, index, isPrivate, toolIndex)\<close>.
  \<open>index\<close> and \<open>toolIndex\<close> are positions in arrays, so natural numbers;
  \<open>isPrivate\<close> may be \<^verbatim>\<open>undefined\<close> (\<open>None\<close>), which is falsy; a
  missing \<open>toolIndex\<close> is \<open>None\<close>.  The lengths are integers, since the
  subtractions of the source can go below zero.
\<close>

definition createGradioToolName ::
  "lower_case_mapping \<Rightarrow> js_string \<Rightarrow> nat \<Rightarrow> bool option \<Rightarrow> nat option \<Rightarrow> js_string" where
  "createGradioToolName lc toolName index isPrivate toolIndex =
     (let prefix = (if isPrivate = Some True then GRADIO_PRIVATE_PREFIX else GRADIO_PREFIX);
          indexStr = Number_toString (index + 1);
          maxNameLength = 49 - int (length prefix) - int (length indexStr) - 1;
          sanitized0 = sanitizedName lc toolName;
          sanitized =
            (if int (length sanitized0) > maxNameLength then
               (case toolIndex of
                  Some ti \<Rightarrow>
                    (let toolIndexPrefix = Number_toString ti @ js ''_'';
                         availableForName = maxNameLength - int (length toolIndexPrefix);
                         keepFromEnd = availableForName - 20 - 1
                     in toolIndexPrefix @ take 20 sanitized0 @ js ''_''
                          @ slice_from (- keepFromEnd) sanitized0)
                | None \<Rightarrow>
                    (let keepFromEnd = maxNameLength - 20 - 1
                     in take 20 sanitized0 @ js ''_'' @ slice_from (- keepFromEnd) sanitized0))
             else sanitized0)
      in prefix @ indexStr @ js ''_'' @ sanitized)"

record ParsedGradioSpace =
  space_name :: js_string

text \<open>
  The validity test of one (trimmed) entry, as the source computes it: the
  number of slashes, the position of the first one, and the length.
\<close>

definition isValidFormat :: "js_string \<Rightarrow> bool" where
  "isValidFormat entry =
     (let slashCount = length (filter (\<lambda>c. c = cu (CHR ''/'')) entry);
          slashIndex = indexOf (cu (CHR ''/'')) entry
      in slashCount = 1 \<and> slashIndex > 0 \<and> slashIndex < int (length entry) - 1)"

text \<open>The \<^verbatim>\<open>for\<close> loop over the entries, pushing onto \<^verbatim>\<open>spaces\<close>.\<close>

fun parse_entries :: "lower_case_mapping \<Rightarrow> js_string list \<Rightarrow> ParsedGradioSpace list \<Rightarrow> ParsedGradioSpace list" where
  "parse_entries lc [] spaces = spaces"
| "parse_entries lc (entry # entries) spaces =
     (if toLowerCase lc entry = js ''none'' then parse_entries lc entries spaces
      else if \<not> isValidFormat entry then parse_entries lc entries spaces
      else parse_entries lc entries (spaces @ [\<lparr>space_name = entry\<rparr>]))"

definition parseGradioSpaceIds :: "lower_case_mapping \<Rightarrow> js_string \<Rightarrow> ParsedGradioSpace list" where
  "parseGradioSpaceIds lc gradioParam =
     (let spaces = [];
          trimmed = trim gradioParam
      in if toLowerCase lc trimmed = js ''none'' then spaces
         else
           (let entries = filter (\<lambda>s. length s > 0) (map trim (split_on (cu (CHR '','')) gradioParam))
            in parse_entries lc entries spaces))"

text \<open>
  The specification's wording of a valid entry: exactly one slash, with
  non-empty text before it and after it.
\<close>

definition spec_valid_entry :: "js_string \<Rightarrow> bool" where
  "spec_valid_entry e =
     (length (filter (\<lambda>c. c = cu (CHR ''/'')) e) = 1
      \<and> takeWhile (\<lambda>c. c \<noteq> cu (CHR ''/'')) e \<noteq> []
      \<and> drop 1 (dropWhile (\<lambda>c. c \<noteq> cu (CHR ''/'')) e) \<noteq> [])"

text \<open>
  An entry of a comma-separated list as it is written: white space, the text of
  the entry, white space.  The text has no comma, and it does not begin or end
  with white space.
\<close>

type_synonym written_entry = "js_string \<times> js_string \<times> js_string"

definition entry_text :: "written_entry \<Rightarrow> js_string" where
  "entry_text p = (case p of (before, e, after) \<Rightarrow> e)"

definition entry_written :: "written_entry \<Rightarrow> js_string" where
  "entry_written p = (case p of (before, e, after) \<Rightarrow> before @ e @ after)"

definition well_written :: "written_entry \<Rightarrow> bool" where
  "well_written p =
     (case p of (before, e, after) \<Rightarrow>
        list_all is_whitespace before \<and> list_all is_whitespace after
        \<and> cu (CHR '','') \<notin> set e
        \<and> (e \<noteq> [] \<longrightarrow> \<not> is_whitespace (hd e) \<and> \<not> is_whitespace (last e)))"

text \<open>The spellings of \<^verbatim>\<open>none\<close> in upper-case and lower-case letters.\<close>

definition none_spellings :: "js_string list" where
  "none_spellings =
     [[a, b, c, d].
        a \<leftarrow> [cu (CHR ''n''), cu (CHR ''N'')], b \<leftarrow> [cu (CHR ''o''), cu (CHR ''O'')],
        c \<leftarrow> [cu (CHR ''n''), cu (CHR ''N'')], d \<leftarrow> [cu (CHR ''e''), cu (CHR ''E'')]]"

text \<open>The written entries of a string: its pieces between the commas, each
  taken apart into the white space at its ends and the text in between.\<close>

definition written_entries :: "js_string \<Rightarrow> written_entry list" where
  "written_entries s =
     map (\<lambda>p. (takeWhile is_whitespace p, trim p,
                rev (takeWhile is_whitespace (rev (dropWhile is_whitespace p)))))
       (split_on (cu (CHR '','')) s)"

section \<open>Concrete inputs\<close>

definition image_result :: CallToolResult where
  "image_result =
     \<lparr>content = Some [Block (TypeString (js ''image'')) (js ''png-data'')],
      isError = Some False, structuredContent = None\<rparr>"

definition image_filter_on :: ImageFilterOptions where
  "image_filter_on =
     \<lparr>enabled = True, filter_toolName = js ''infer'', filter_outwardFacingName = js ''gr1_infer''\<rparr>"

definition image_filter_off :: ImageFilterOptions where
  "image_filter_off =
     \<lparr>enabled = False, filter_toolName = js ''infer'', filter_outwardFacingName = js ''gr1_infer''\<rparr>"

definition long_tool_name :: js_string where
  "long_tool_name = js ''a - very.long tool name that goes on and on and on_and_on_for_ever''"

section \<open>Tool selection (bouquet-presets.ts, tool-selection-strategy.ts)\<close>

record SpaceTool =
  st_id :: js_string
  st_name :: js_string
  st_subdomain :: js_string
  st_emoji :: js_string

record AppSettings =
  builtInTools :: "js_string list"
  spaceTools :: "SpaceTool list"

text \<open>
  The tool identifiers and identifier groups that \<^verbatim>\<open>bouquet-presets.ts\<close>
  imports from the package \<^verbatim>\<open>@llmindset/hf-mcp\<close> and from
  \<^verbatim>\<open>behavior-flags.ts\<close> are not among the sources.  They are
  parameters of the model: one record holds a value for each imported name.
\<close>

record tool_ids =
  TOOL_ID_GROUPS_hf_api :: "js_string list"
  TOOL_ID_GROUPS_spaces :: "js_string list"
  TOOL_ID_GROUPS_search :: "js_string list"
  TOOL_ID_GROUPS_docs :: "js_string list"
  ALL_BUILTIN_TOOL_IDS :: "js_string list"
  HUB_INSPECT_TOOL_ID :: js_string
  USE_SPACE_TOOL_ID :: js_string
  HF_JOBS_TOOL_ID :: js_string
  DYNAMIC_SPACE_TOOL_ID :: js_string
  SPACE_SEARCH_TOOL_ID :: js_string
  README_INCLUDE_FLAG :: js_string
  GRADIO_IMAGE_FILTER_FLAG :: js_string

text \<open>
  The table \<^verbatim>\<open>BOUQUETS\<close>, in the order of the source: the eleven
  properties of the object literal.
\<close>

definition BOUQUETS :: "tool_ids \<Rightarrow> (js_string \<times> AppSettings) list" where
  "BOUQUETS ids =
     [(js ''hf_api'', \<lparr>builtInTools = TOOL_ID_GROUPS_hf_api ids, spaceTools = []\<rparr>),
      (js ''spaces'', \<lparr>builtInTools = TOOL_ID_GROUPS_spaces ids, spaceTools = []\<rparr>),
      (js ''search'', \<lparr>builtInTools = TOOL_ID_GROUPS_search ids, spaceTools = []\<rparr>),
      (js ''docs'', \<lparr>builtInTools = TOOL_ID_GROUPS_docs ids, spaceTools = []\<rparr>),
      (js ''all'', \<lparr>builtInTools = ALL_BUILTIN_TOOL_IDS ids, spaceTools = []\<rparr>),
      (js ''hub_repo_details_readme'',
         \<lparr>builtInTools = [HUB_INSPECT_TOOL_ID ids, README_INCLUDE_FLAG ids], spaceTools = []\<rparr>),
      (js ''hub_repo_details'', \<lparr>builtInTools = [HUB_INSPECT_TOOL_ID ids], spaceTools = []\<rparr>),
      (js ''no_gradio_images'', \<lparr>builtInTools = [GRADIO_IMAGE_FILTER_FLAG ids], spaceTools = []\<rparr>),
      (js ''mcp_ui'', \<lparr>builtInTools = [USE_SPACE_TOOL_ID ids], spaceTools = []\<rparr>),
      (js ''jobs'', \<lparr>builtInTools = [HF_JOBS_TOOL_ID ids], spaceTools = []\<rparr>),
      (js ''dynamic_space'',
         \<lparr>builtInTools = [SPACE_SEARCH_TOOL_ID ids, DYNAMIC_SPACE_TOOL_ID ids], spaceTools = []\<rparr>)]"

text \<open>
  \<^verbatim>\<open>BOUQUETS\<close> is an object literal, so the property access
  \<^verbatim>\<open>BOUQUETS[name]\<close> finds the eleven presets and, for the names of
  the properties of \<^verbatim>\<open>Object.prototype\<close>, what every object
  inherits: a function (for \<^verbatim>\<open>__proto__\<close> the prototype itself).
  Such a value is truthy and has no \<^verbatim>\<open>builtInTools\<close>.  For every
  other name the access gives \<^verbatim>\<open>undefined\<close> (\<open>None\<close>).
\<close>

definition Object_prototype_names :: "js_string list" where
  "Object_prototype_names =
     [js ''constructor'', js ''__defineGetter__'', js ''__defineSetter__'', js ''hasOwnProperty'',
      js ''__lookupGetter__'', js ''__lookupSetter__'', js ''isPrototypeOf'', js ''propertyIsEnumerable'',
      js ''toString'', js ''valueOf'', js ''__proto__'', js ''toLocaleString'']"

datatype bouquet_property = Preset AppSettings | Inherited

definition BOUQUETS_lookup :: "tool_ids \<Rightarrow> js_string \<Rightarrow> bouquet_property option" where
  "BOUQUETS_lookup ids name =
     (case map_of (BOUQUETS ids) name of
        Some preset \<Rightarrow> Some (Preset preset)
      | None \<Rightarrow> if name \<in> set Object_prototype_names then Some Inherited else None)"

datatype ToolSelectionMode = BOUQUET_OVERRIDE | MIX | EXTERNAL_API | INTERNAL_API | FALLBACK

record ToolSelectionContext =
  ctx_headers :: "(js_string \<rightharpoonup> js_string) option"
  ctx_userSettings :: "AppSettings option"
  ctx_hfToken :: "js_string option"

record ToolSelectionResult =
  mode :: ToolSelectionMode
  enabledToolIds :: "js_string list"
  reason :: js_string
  baseSettings :: "AppSettings option"
  mixedBouquet :: "js_string option"
  gradioSpaceTools :: "SpaceTool list option"

text \<open>What \<^verbatim>\<open>extractAuthBouquetAndMix\<close> hands to \<^verbatim>\<open>selectTools\<close>.\<close>

record extracted =
  ex_bouquet :: "js_string option"
  ex_mix :: "js_string option"
  ex_gradio :: "js_string option"

record GradioEndpoint =
  ep_name :: js_string
  ep_subdomain :: js_string
  ep_id :: "js_string option"
  ep_emoji :: "js_string option"

text \<open>The reply of \<^verbatim>\<open>apiClient.getToolStates\<close>: it throws, or gives
  nothing, or gives the tool states with their keys in enumeration order.\<close>

datatype tool_states_reply =
    ToolStatesThrows
  | ToolStatesNone
  | ToolStates "(js_string \<times> bool) list"

text \<open>
  The collaborators of \<^verbatim>\<open>selectTools\<close> that are not among the sources,
  and the process environment it reads, as parameters:
  \<^verbatim>\<open>extractAuthBouquetAndMix\<close> (\<^verbatim>\<open>auth-utils.ts\<close>),
  \<^verbatim>\<open>normalizeBuiltInTools\<close> (\<^verbatim>\<open>tool-normalizer.ts\<close>), the tool
  identifiers, the API client, and the environment variables
  \<^verbatim>\<open>SEARCH_ENABLES_FETCH\<close>, \<^verbatim>\<open>NODE_ENV\<close> and
  \<^verbatim>\<open>VITEST\<close> (\<open>test_environment\<close> says that one of the last two
  marks a test run).  \<open>normalizeBuiltInTools_undefined\<close> is what
  \<^verbatim>\<open>normalizeBuiltInTools(undefined)\<close> does: it throws (\<open>None\<close>)
  or returns a list.
\<close>

record selection_deps =
  extractAuthBouquetAndMix :: "(js_string \<rightharpoonup> js_string) option \<Rightarrow> extracted"
  normalizeBuiltInTools :: "js_string list \<Rightarrow> js_string list"
  normalizeBuiltInTools_undefined :: "js_string list option"
  ids :: tool_ids
  SEARCH_ENABLES_FETCH :: "js_string option"
  test_environment :: bool
  getToolStates :: "js_string option \<Rightarrow> tool_states_reply"
  getGradioEndpoints :: "GradioEndpoint list"
  externalApiMode :: "bool option"

text \<open>A string that may be \<^verbatim>\<open>undefined\<close> is truthy when it is present
  and not empty.\<close>

fun truthy :: "js_string option \<Rightarrow> bool" where
  "truthy None = False"
| "truthy (Some s) = (s \<noteq> [])"

text \<open>
  The default emoji of \<^verbatim>\<open>tool-selection-strategy.ts\<close>: the wrench
  U+1F527, and the hammer and wrench U+1F6E0 with the variation selector
  U+FE0F, as UTF-16 code units.
\<close>

definition wrench_emoji :: js_string where
  "wrench_emoji = [0xD83D, 0xDD27]"

definition tools_emoji :: js_string where
  "tools_emoji = [0xD83D, 0xDEE0, 0xFE0F]"

definition parseGradioEndpoints :: "lower_case_mapping \<Rightarrow> js_string \<Rightarrow> SpaceTool list" where
  "parseGradioEndpoints lc gradioParam =
     (let parsedSpaces = parseGradioSpaceIds lc gradioParam
      in map (\<lambda>space.
            (let placeholderSubdomain =
                   map (\<lambda>c. if c = cu (CHR ''/'') then cu (CHR ''-'') else c) (space_name space)
             in \<lparr>st_id = js ''gradio_metadata_'' @ placeholderSubdomain,
                 st_name = space_name space,
                 st_subdomain = placeholderSubdomain,
                 st_emoji = wrench_emoji\<rparr>))
          parsedSpaces)"

definition applySearchEnablesFetch :: "selection_deps \<Rightarrow> js_string list \<Rightarrow> js_string list" where
  "applySearchEnablesFetch deps toolIds =
     (if SEARCH_ENABLES_FETCH deps = Some (js ''true'') then
        (if js ''hf_doc_search'' \<in> set toolIds \<and> js ''hf_doc_fetch'' \<notin> set toolIds
         then toolIds @ [js ''hf_doc_fetch'']
         else toolIds)
      else toolIds)"

text \<open>
  \<^verbatim>\<open>[...new Set(xs)]\<close>: the elements of \<open>xs\<close> in the order of their
  first occurrence, each once.
\<close>

fun Set_add_all :: "'a list \<Rightarrow> 'a list \<Rightarrow> 'a list" where
  "Set_add_all acc [] = acc"
| "Set_add_all acc (x # xs) = Set_add_all (if x \<in> set acc then acc else acc @ [x]) xs"

definition spread_Set :: "'a list \<Rightarrow> 'a list" where
  "spread_Set xs = Set_add_all [] xs"

definition getUserSettings :: "selection_deps \<Rightarrow> ToolSelectionContext \<Rightarrow> AppSettings option" where
  "getUserSettings deps context =
     (case ctx_userSettings context of
        Some settings \<Rightarrow> Some settings
      | None \<Rightarrow>
          if test_environment deps then None
          else
            (case getToolStates deps (ctx_hfToken context) of
               ToolStatesThrows \<Rightarrow> None
             | ToolStatesNone \<Rightarrow> None
             | ToolStates toolStates \<Rightarrow>
                 Some \<lparr>builtInTools = map fst (filter snd toolStates),
                       spaceTools =
                         map (\<lambda>endpoint.
                               \<lparr>st_id = (if truthy (ep_id endpoint) then the (ep_id endpoint)
                                          else ep_name endpoint),
                                st_name = ep_name endpoint,
                                st_subdomain = ep_subdomain endpoint,
                                st_emoji = (if truthy (ep_emoji endpoint) then the (ep_emoji endpoint)
                                            else tools_emoji)\<rparr>)
                             (getGradioEndpoints deps)\<rparr>))"

text \<open>The tail of every \<^verbatim>\<open>reason\<close> string.\<close>

definition gradio_suffix :: "SpaceTool list \<Rightarrow> js_string" where
  "gradio_suffix tools =
     (if length tools > 0 then js '' + '' @ Number_toString (length tools) @ js '' gradio endpoints''
      else [])"

definition gradio_field :: "SpaceTool list \<Rightarrow> SpaceTool list option" where
  "gradio_field tools = (if length tools > 0 then Some tools else None)"

text \<open>
  \<^verbatim>\<open>selectTools\<close>.  The result is \<open>None\<close> when the call throws (the
  promise rejects).  That happens when the bouquet or the mix is a name that
  \<^verbatim>\<open>BOUQUETS\<close> inherits: the value found has no
  \<^verbatim>\<open>builtInTools\<close>, so \<^verbatim>\<open>applySearchEnablesFetch\<close> calls
  \<^verbatim>\<open>includes\<close> on \<^verbatim>\<open>undefined\<close> when the expansion is on and
  hands \<^verbatim>\<open>undefined\<close> to the normalizer when it is off, and the mix
  spreads \<^verbatim>\<open>undefined\<close> into an array.
\<close>

definition selectTools ::
  "lower_case_mapping \<Rightarrow> selection_deps \<Rightarrow> ToolSelectionContext \<Rightarrow> ToolSelectionResult option" where
  "selectTools lc deps context =
     (let ex = extractAuthBouquetAndMix deps (ctx_headers context);
          gradioTools = (if truthy (ex_gradio ex) then parseGradioEndpoints lc (the (ex_gradio ex)) else []);
          bouquetValue =
            (if truthy (ex_bouquet ex) then BOUQUETS_lookup (ids deps) (the (ex_bouquet ex)) else None)
      in case bouquetValue of
        Some (Preset preset) \<Rightarrow>
          Some \<lparr>mode = BOUQUET_OVERRIDE,
                enabledToolIds =
                  normalizeBuiltInTools deps (applySearchEnablesFetch deps (builtInTools preset)),
                reason = js ''Bouquet override: '' @ the (ex_bouquet ex) @ gradio_suffix gradioTools,
                baseSettings = None,
                mixedBouquet = None,
                gradioSpaceTools = gradio_field gradioTools\<rparr>
      | Some Inherited \<Rightarrow>
          if SEARCH_ENABLES_FETCH deps = Some (js ''true'') then None
          else
            (case normalizeBuiltInTools_undefined deps of
               None \<Rightarrow> None
             | Some toolIds \<Rightarrow>
                 Some \<lparr>mode = BOUQUET_OVERRIDE,
                       enabledToolIds = toolIds,
                       reason = js ''Bouquet override: '' @ the (ex_bouquet ex)
                                  @ gradio_suffix gradioTools,
                       baseSettings = None,
                       mixedBouquet = None,
                       gradioSpaceTools = gradio_field gradioTools\<rparr>)
      | None \<Rightarrow>
          (let base = getUserSettings deps context;
               mixValue =
                 (if truthy (ex_mix ex) then BOUQUETS_lookup (ids deps) (the (ex_mix ex)) else None)
           in case (mixValue, base) of
             (Some (Preset preset), Some settings) \<Rightarrow>
               (let mixedTools = builtInTools settings @ builtInTools preset
                in Some \<lparr>mode = MIX,
                    enabledToolIds =
                      normalizeBuiltInTools deps (applySearchEnablesFetch deps (spread_Set mixedTools)),
                    reason = js ''User settings + mix('' @ the (ex_mix ex) @ js '')''
                               @ gradio_suffix gradioTools,
                    baseSettings = Some settings,
                    mixedBouquet = ex_mix ex,
                    gradioSpaceTools = gradio_field gradioTools\<rparr>)
           | (Some Inherited, Some settings) \<Rightarrow> None
           | (_, Some settings) \<Rightarrow>
               (let m = (if externalApiMode deps = Some True then EXTERNAL_API else INTERNAL_API)
                in Some \<lparr>mode = m,
                    enabledToolIds =
                      normalizeBuiltInTools deps (applySearchEnablesFetch deps (builtInTools settings)),
                    reason = (if m = EXTERNAL_API then js ''External API user settings''
                              else js ''Internal API user settings'') @ gradio_suffix gradioTools,
                    baseSettings = Some settings,
                    mixedBouquet = None,
                    gradioSpaceTools = gradio_field gradioTools\<rparr>)
           | (_, None) \<Rightarrow>
               Some \<lparr>mode = FALLBACK,
                enabledToolIds =
                  normalizeBuiltInTools deps
                    (applySearchEnablesFetch deps (ALL_BUILTIN_TOOL_IDS (ids deps))),
                reason = js ''Fallback - no settings available'' @ gradio_suffix gradioTools,
                baseSettings = None,
                mixedBouquet = None,
                gradioSpaceTools = gradio_field gradioTools\<rparr>))"

text \<open>
  Modelled from the spec: \<^verbatim>\<open>extractAuthBouquetAndMix\<close> of
  \<^verbatim>\<open>auth-utils.ts\<close>, which is not among the sources.  The table of
  recognised request headers names \<^verbatim>\<open>x-mcp-bouquet\<close>,
  \<^verbatim>\<open>x-mcp-mix\<close> and \<^verbatim>\<open>x-mcp-gradio\<close>; absent headers
  (\<^verbatim>\<open>null\<close>) give nothing.  It is used for concrete inputs only: the
  theorems about \<^verbatim>\<open>selectTools\<close> hold for every extraction function.
\<close>

definition header_extract :: "(js_string \<rightharpoonup> js_string) option \<Rightarrow> extracted" where
  "header_extract hs =
     (case hs of
        None \<Rightarrow> \<lparr>ex_bouquet = None, ex_mix = None, ex_gradio = None\<rparr>
      | Some h \<Rightarrow>
          \<lparr>ex_bouquet = h (js ''x-mcp-bouquet''), ex_mix = h (js ''x-mcp-mix''),
           ex_gradio = h (js ''x-mcp-gradio'')\<rparr>)"

text \<open>
  Concrete values for the parameters, for evaluating \<^verbatim>\<open>selectTools\<close>
  on examples: tool identifiers as they appear in the descriptions of
  \<^verbatim>\<open>bouquet-presets.ts\<close> and in the repository's tests, a search
  group that contains \<^verbatim>\<open>hf_doc_search\<close> and not
  \<^verbatim>\<open>hf_doc_fetch\<close>, a normalizer that changes nothing and throws
  on \<^verbatim>\<open>undefined\<close>, and \<^verbatim>\<open>SEARCH_ENABLES_FETCH=true\<close>
  outside a test run.
\<close>

definition sample_ids :: tool_ids where
  "sample_ids =
     \<lparr>TOOL_ID_GROUPS_hf_api =
        [js ''space_search'', js ''model_search'', js ''paper_search'', js ''dataset_search'',
         js ''hub_repo_details'', js ''hf_doc_search'', js ''hf_doc_fetch''],
      TOOL_ID_GROUPS_spaces = [js ''space_search'', js ''duplicate_space'', js ''space_info'', js ''space_files''],
      TOOL_ID_GROUPS_search =
        [js ''space_search'', js ''model_search'', js ''dataset_search'', js ''paper_search'', js ''hf_doc_search''],
      TOOL_ID_GROUPS_docs = [js ''hf_doc_search'', js ''hf_doc_fetch''],
      ALL_BUILTIN_TOOL_IDS =
        [js ''space_search'', js ''model_search'', js ''model_details'', js ''paper_search'',
         js ''dataset_search'', js ''dataset_details'', js ''hub_repo_details'', js ''duplicate_space'',
         js ''space_info'', js ''space_files'', js ''hf_doc_search'', js ''hf_doc_fetch'', js ''use_space'',
         js ''hf_jobs'', js ''dynamic_space''],
      HUB_INSPECT_TOOL_ID = js ''hub_repo_details'',
      USE_SPACE_TOOL_ID = js ''use_space'',
      HF_JOBS_TOOL_ID = js ''hf_jobs'',
      DYNAMIC_SPACE_TOOL_ID = js ''dynamic_space'',
      SPACE_SEARCH_TOOL_ID = js ''space_search'',
      README_INCLUDE_FLAG = js ''ALLOW_README_INCLUDE'',
      GRADIO_IMAGE_FILTER_FLAG = js ''NO_GRADIO_IMAGE_CONTENT''\<rparr>"

definition sample_deps :: selection_deps where
  "sample_deps =
     \<lparr>extractAuthBouquetAndMix = header_extract,
      normalizeBuiltInTools = (\<lambda>toolIds. toolIds),
      normalizeBuiltInTools_undefined = None,
      ids = sample_ids,
      SEARCH_ENABLES_FETCH = Some (js ''true''),
      test_environment = False,
      getToolStates = (\<lambda>token. ToolStatesNone),
      getGradioEndpoints = [],
      externalApiMode = Some False\<rparr>"

definition search_bouquet_context :: ToolSelectionContext where
  "search_bouquet_context =
     \<lparr>ctx_headers = Some [js ''x-mcp-bouquet'' \<mapsto> js ''search''],
      ctx_userSettings = None, ctx_hfToken = Some (js ''test-token'')\<rparr>"

definition jobs_mix_context :: ToolSelectionContext where
  "jobs_mix_context =
     \<lparr>ctx_headers = Some [js ''x-mcp-mix'' \<mapsto> js ''jobs''],
      ctx_userSettings = Some \<lparr>builtInTools = [js ''hf_doc_search'', js ''model_search''], spaceTools = []\<rparr>,
      ctx_hfToken = Some (js ''test-token'')\<rparr>"

definition constructor_bouquet_context :: ToolSelectionContext where
  "constructor_bouquet_context =
     \<lparr>ctx_headers = Some [js ''x-mcp-bouquet'' \<mapsto> js ''constructor'', js ''x-mcp-mix'' \<mapsto> js ''jobs''],
      ctx_userSettings = Some \<lparr>builtInTools = [js ''model_search''], spaceTools = []\<rparr>,
      ctx_hfToken = Some (js ''test-token'')\<rparr>"

definition bouquet_and_mix_context :: ToolSelectionContext where
  "bouquet_and_mix_context =
     \<lparr>ctx_headers = Some [js ''x-mcp-bouquet'' \<mapsto> js ''jobs'', js ''x-mcp-mix'' \<mapsto> js ''docs''],
      ctx_userSettings = Some \<lparr>builtInTools = [js ''model_search''], spaceTools = []\<rparr>,
      ctx_hfToken = Some (js ''test-token'')\<rparr>"

section \<open>Gradio discovery (gradio-discovery.ts)\<close>

text \<open>
  The network is the environment of the discovery.  A reply to a request is
  that \<^verbatim>\<open>fetch\<close> rejects (a network error, or the abort after the
  timeout), or a response with its status, its \<^verbatim>\<open>etag\<close> header and
  its body parsed as JSON (\<open>None\<close> when \<^verbatim>\<open>response.json()\<close> throws).
  Every error inside \<^verbatim>\<open>fetchSpaceMetadata\<close> and
  \<^verbatim>\<open>fetchSchema\<close> is caught there and becomes a failure result, so the
  errors are values.
\<close>

datatype fetch_error =
    NetworkError
  | HttpError nat
  | InvalidJson
  | NoSubdomain
  | InvalidSchemaFormat
  | NoToolsFound
  | TypeError

datatype 'body http_reply =
    FetchRejects
  | Response nat "js_string option" "'body option"

definition response_ok :: "nat \<Rightarrow> bool" where
  "response_ok status = (200 \<le> status \<and> status \<le> 299)"

record http_request =
  req_url :: js_string
  req_headers :: "(js_string \<times> js_string) list"

text \<open>The JSON body of the Hub's answer, as the source reads it.\<close>

record space_info =
  info_id :: "js_string option"
  info_subdomain :: "js_string option"
  info_private :: "bool option"
  info_sdk :: "js_string option"
  info_runtime :: "runtime_info option"

datatype SpaceMetadataResult =
    MetadataSuccess CachedSpaceMetadata bool
  | MetadataFailure js_string fetch_error

text \<open>
  \<^verbatim>\<open>fetchSpaceMetadata\<close> runs up to its \<^verbatim>\<open>await fetch(...)\<close>,
  and goes on when the reply is there.  The two halves are two functions.  The
  first one reads the clock for the cache lookup and either returns the cached
  entry or leaves a pending request together with the stale entry it captured;
  the second one reads the clock again when it builds the metadata or refreshes
  the timestamp.  (The option \<^verbatim>\<open>includeRuntime\<close> only fills an array
  that is not used; the timeout shows as a rejected fetch.)

  The variable \<^verbatim>\<open>stale\<close> is a reference to the entry: the number
  of the object, with the object as it was at the lookup.  A result holds the
  metadata as it is when the call returns.  On \<^verbatim>\<open>304\<close> that is the
  object behind \<^verbatim>\<open>stale\<close> after \<^verbatim>\<open>updateTimestamp\<close> has
  run: with the new \<open>fetchedAt\<close> when the object is still the entry of
  the key, and as it was left when another fetch has replaced it in between.
\<close>

type_synonym stale_reference = "nat \<times> CachedSpaceMetadata"

datatype metadata_started =
    MetadataCached CachedSpaceMetadata
  | MetadataPending "stale_reference option" http_request

definition stale_object ::
  "js_string \<Rightarrow> stale_reference \<Rightarrow> SpaceMetadataCache \<Rightarrow> CachedSpaceMetadata" where
  "stale_object spaceName stale c =
     (case SpaceMetadataCache_object spaceName (fst stale) c of
        Some object \<Rightarrow> object
      | None \<Rightarrow> snd stale)"

definition metadata_request :: "js_string \<Rightarrow> js_string option \<Rightarrow> js_string option \<Rightarrow> http_request" where
  "metadata_request spaceName hfToken etag =
     \<lparr>req_url = js ''https://huggingface.co/api/spaces/'' @ spaceName,
      req_headers =
        (if truthy hfToken then [(js ''Authorization'', js ''Bearer '' @ the hfToken)] else [])
        @ (if truthy etag then [(js ''If-None-Match'', the etag)] else [])\<rparr>"

definition fetchSpaceMetadata_start ::
  "CACHE_CONFIG \<Rightarrow> int \<Rightarrow> js_string \<Rightarrow> js_string option \<Rightarrow> SpaceMetadataCache
     \<Rightarrow> metadata_started \<times> SpaceMetadataCache" where
  "fetchSpaceMetadata_start cfg now spaceName hfToken c =
     (case SpaceMetadataCache_get cfg now spaceName c of
        (Some cached, c') \<Rightarrow> (MetadataCached cached, c')
      | (None, c') \<Rightarrow>
          (let stale = SpaceMetadataCache_getForRevalidation spaceName c';
               etag = (case stale of None \<Rightarrow> None | Some e \<Rightarrow> m_etag e)
           in (MetadataPending (map_option (Pair (mc_stored c' spaceName)) stale)
                 (metadata_request spaceName hfToken etag), c')))"

text \<open>
  The default emoji of \<^verbatim>\<open>gradio-discovery.ts\<close>.  The literal in
  that file is not the wrench but the four characters U+F8FF, U+00FC, U+00EE
  and U+00DF (the UTF-8 bytes of the wrench, read in another encoding).
\<close>

definition discovery_emoji :: js_string where
  "discovery_emoji = [0xF8FF, 0x00FC, 0x00EE, 0x00DF]"

text \<open>The metadata object built from a parsed reply that has a subdomain.\<close>

definition new_metadata ::
  "int \<Rightarrow> js_string \<Rightarrow> js_string option \<Rightarrow> space_info \<Rightarrow> CachedSpaceMetadata" where
  "new_metadata now spaceName newEtag info =
     \<lparr>m_id = (if truthy (info_id info) then the (info_id info)
              else js ''gradio_'' @ the (info_subdomain info)),
      m_name = spaceName,
      m_subdomain = the (info_subdomain info),
      m_emoji = discovery_emoji,
      m_private = (info_private info = Some True),
      m_sdk = (if truthy (info_sdk info) then the (info_sdk info) else js ''gradio''),
      m_runtime = info_runtime info,
      m_etag = newEtag,
      m_fetchedAt = now\<rparr>"

definition fetchSpaceMetadata_finish ::
  "int \<Rightarrow> js_string \<Rightarrow> stale_reference option \<Rightarrow> space_info http_reply
     \<Rightarrow> SpaceMetadataCache \<Rightarrow> SpaceMetadataResult \<times> SpaceMetadataCache" where
  "fetchSpaceMetadata_finish now spaceName stale reply c =
     (case reply of
        FetchRejects \<Rightarrow> (MetadataFailure spaceName NetworkError, c)
      | Response status etagHeader body \<Rightarrow>
          if status = 304 \<and> stale \<noteq> None then
            (let c' = SpaceMetadataCache_updateTimestamp now spaceName c
             in (MetadataSuccess (stale_object spaceName (the stale) c') True, c'))
          else if \<not> response_ok status then (MetadataFailure spaceName (HttpError status), c)
          else
            (case body of
               None \<Rightarrow> (MetadataFailure spaceName InvalidJson, c)
             | Some info \<Rightarrow>
                 (let newEtag = (if truthy etagHeader then etagHeader else None)
                  in if \<not> truthy (info_subdomain info)
                     then (MetadataFailure spaceName NoSubdomain, c)
                     else
                       (let metadata = new_metadata now spaceName newEtag info
                        in if \<not> m_private metadata
                           then (MetadataSuccess metadata False,
                                 SpaceMetadataCache_set spaceName metadata c)
                           else (MetadataSuccess metadata False, c)))))"

text \<open>
  What the environment does for one metadata fetch: the clock at the cache
  lookup, the reply to the request that is sent, and the clock when the reply
  is handled.
\<close>

record metadata_io =
  io_lookup_time :: int
  io_reply :: "http_request \<Rightarrow> space_info http_reply"
  io_reply_time :: int

definition metadata_resume ::
  "metadata_io \<Rightarrow> js_string \<Rightarrow> metadata_started \<Rightarrow> SpaceMetadataCache
     \<Rightarrow> SpaceMetadataResult \<times> SpaceMetadataCache" where
  "metadata_resume io spaceName started c =
     (case started of
        MetadataCached cached \<Rightarrow> (MetadataSuccess cached True, c)
      | MetadataPending stale request \<Rightarrow>
          fetchSpaceMetadata_finish (io_reply_time io) spaceName stale (io_reply io request) c)"

text \<open>One whole call of \<^verbatim>\<open>fetchSpaceMetadata\<close>, with nothing in between.\<close>

definition fetchSpaceMetadata ::
  "CACHE_CONFIG \<Rightarrow> metadata_io \<Rightarrow> js_string \<Rightarrow> js_string option \<Rightarrow> SpaceMetadataCache
     \<Rightarrow> SpaceMetadataResult \<times> SpaceMetadataCache" where
  "fetchSpaceMetadata cfg io spaceName hfToken c =
     (case fetchSpaceMetadata_start cfg (io_lookup_time io) spaceName hfToken c of
        (started, c') \<Rightarrow> metadata_resume io spaceName started c')"

text \<open>
  A \<^verbatim>\<open>Map\<close> that is iterated keeps its keys in the order of their first
  insertion: an association list, where \<^verbatim>\<open>set\<close> on a present key
  replaces the value in place.
\<close>

fun Map_set :: "('k \<times> 'v) list \<Rightarrow> 'k \<Rightarrow> 'v \<Rightarrow> ('k \<times> 'v) list" where
  "Map_set [] k v = [(k, v)]"
| "Map_set ((k', v') # m) k v =
     (if k' = k then (k, v) # m else (k', v') # Map_set m k v)"

text \<open>
  A batch: \<^verbatim>\<open>batch.map(spaceName => fetchSpaceMetadata(...))\<close> starts
  every call in the order of the batch, each running to its
  \<^verbatim>\<open>await\<close>; \<^verbatim>\<open>Promise.all\<close> then gives the results in the
  order of the batch.  The replies are handled in the order of the requests.
  The environment tells, for each space name, what the clock and the network
  do for the call for that name.
\<close>

fun metadata_start_all ::
  "CACHE_CONFIG \<Rightarrow> (js_string \<Rightarrow> metadata_io) \<Rightarrow> js_string option \<Rightarrow> js_string list
     \<Rightarrow> SpaceMetadataCache \<Rightarrow> (js_string \<times> metadata_started) list \<times> SpaceMetadataCache" where
  "metadata_start_all cfg env hfToken [] c = ([], c)"
| "metadata_start_all cfg env hfToken (spaceName # rest) c =
     (case fetchSpaceMetadata_start cfg (io_lookup_time (env spaceName)) spaceName hfToken c of
        (started, c') \<Rightarrow>
          (case metadata_start_all cfg env hfToken rest c' of
             (others, c'') \<Rightarrow> ((spaceName, started) # others, c'')))"

fun metadata_resume_all ::
  "(js_string \<Rightarrow> metadata_io) \<Rightarrow> (js_string \<times> metadata_started) list \<Rightarrow> SpaceMetadataCache
     \<Rightarrow> SpaceMetadataResult list \<times> SpaceMetadataCache" where
  "metadata_resume_all env [] c = ([], c)"
| "metadata_resume_all env ((spaceName, started) # rest) c =
     (case metadata_resume (env spaceName) spaceName started c of
        (result, c') \<Rightarrow>
          (case metadata_resume_all env rest c' of
             (others, c'') \<Rightarrow> (result # others, c'')))"

text \<open>The loop over the results of a batch, storing the successes.\<close>

fun store_metadata ::
  "SpaceMetadataResult list \<Rightarrow> (js_string \<times> CachedSpaceMetadata) list
     \<Rightarrow> (js_string \<times> CachedSpaceMetadata) list" where
  "store_metadata [] results = results"
| "store_metadata (MetadataSuccess metadata cached # rest) results =
     store_metadata rest (Map_set results (m_name metadata) metadata)"
| "store_metadata (MetadataFailure spaceName err # rest) results = store_metadata rest results"

text \<open>
  The batches: \<^verbatim>\<open>for (let i = 0; i < n; i += concurrency)\<close> pushes the
  slices of length \<^verbatim>\<open>concurrency\<close>.  With a concurrency that is not
  positive the loop never ends when there is a name to fetch; that is the value
  \<open>None\<close> of \<open>make_batches\<close>.
\<close>

function batches_of :: "nat \<Rightarrow> 'a list \<Rightarrow> 'a list list" where
  "batches_of n xs =
     (if n = 0 \<or> xs = [] then [] else take n xs # batches_of n (drop n xs))"
  by pat_completeness auto
termination
  by (relation "measure (\<lambda>(n, xs). length xs)") auto

declare batches_of.simps [simp del]

definition make_batches :: "int \<Rightarrow> 'a list \<Rightarrow> 'a list list option" where
  "make_batches concurrency xs =
     (if xs = [] then Some []
      else if concurrency \<le> 0 then None
      else Some (batches_of (nat concurrency) xs))"

text \<open>One batch: \<^verbatim>\<open>await Promise.all(batchPromises)\<close>.\<close>

definition fetch_batch ::
  "CACHE_CONFIG \<Rightarrow> (js_string \<Rightarrow> metadata_io) \<Rightarrow> js_string option \<Rightarrow> js_string list
     \<Rightarrow> SpaceMetadataCache \<Rightarrow> SpaceMetadataResult list \<times> SpaceMetadataCache" where
  "fetch_batch cfg env hfToken batch c =
     (case metadata_start_all cfg env hfToken batch c of
        (started, c1) \<Rightarrow> metadata_resume_all env started c1)"

fun fetch_batches ::
  "CACHE_CONFIG \<Rightarrow> (js_string \<Rightarrow> metadata_io) \<Rightarrow> js_string option \<Rightarrow> js_string list list
     \<Rightarrow> (js_string \<times> CachedSpaceMetadata) list \<Rightarrow> SpaceMetadataCache
     \<Rightarrow> (js_string \<times> CachedSpaceMetadata) list \<times> SpaceMetadataCache" where
  "fetch_batches cfg env hfToken [] results c = (results, c)"
| "fetch_batches cfg env hfToken (batch # batches) results c =
     (case fetch_batch cfg env hfToken batch c of
        (batchResults, c2) \<Rightarrow>
          fetch_batches cfg env hfToken batches (store_metadata batchResults results) c2)"

definition fetchSpaceMetadataWithCache ::
  "CACHE_CONFIG \<Rightarrow> (js_string \<Rightarrow> metadata_io) \<Rightarrow> js_string list \<Rightarrow> js_string option
     \<Rightarrow> SpaceMetadataCache
     \<Rightarrow> ((js_string \<times> CachedSpaceMetadata) list \<times> SpaceMetadataCache) option" where
  "fetchSpaceMetadataWithCache cfg env spaceNames hfToken c =
     (case make_batches (DISCOVERY_CONCURRENCY cfg) spaceNames of
        None \<Rightarrow> None
      | Some batches \<Rightarrow> Some (fetch_batches cfg env hfToken batches [] c))"

subsection \<open>Schemas\<close>

text \<open>
  The JSON of a schema reply, as far as \<^verbatim>\<open>parseSchemaResponse\<close> and
  the conversion to tools look at it.  An input schema is an object with
  optional \<^verbatim>\<open>properties\<close>, \<^verbatim>\<open>required\<close> and
  \<^verbatim>\<open>description\<close>, or \<^verbatim>\<open>null\<close> (\<open>None\<close>), on which reading
  a property throws.  An element of the array format is a tool entry (an object
  with a string \<^verbatim>\<open>name\<close> and an \<^verbatim>\<open>inputSchema\<close>) or anything
  else; the object format maps tool names to input schemas.
\<close>

record JsonSchema =
  js_properties :: "(js_string \<times> js_string) list option"
  js_required :: "js_string list option"
  js_description :: "js_string option"

record parsed_tool =
  pt_name :: js_string
  pt_description :: "js_string option"
  pt_inputSchema :: "JsonSchema option"

datatype array_item = ToolEntry parsed_tool | OtherEntry

datatype schema_json =
    ArrayFormat "array_item list"
  | ObjectFormat "(js_string \<times> JsonSchema option) list"
  | OtherJson

fun tool_entries :: "array_item list \<Rightarrow> parsed_tool list" where
  "tool_entries [] = []"
| "tool_entries (ToolEntry t # items) = t # tool_entries items"
| "tool_entries (OtherEntry # items) = tool_entries items"

text \<open>The \<^verbatim>\<open>map\<close> over the entries of the object format; reading the
  description of a \<^verbatim>\<open>null\<close> schema throws.\<close>

fun object_entries :: "(js_string \<times> JsonSchema option) list \<Rightarrow> fetch_error + parsed_tool list" where
  "object_entries [] = Inr []"
| "object_entries ((name, None) # entries) = Inl TypeError"
| "object_entries ((name, Some toolSchema) # entries) =
     (case object_entries entries of
        Inl e \<Rightarrow> Inl e
      | Inr tools \<Rightarrow>
          Inr (\<lparr>pt_name = name, pt_description = js_description toolSchema,
                pt_inputSchema = Some toolSchema\<rparr> # tools))"

definition parseSchemaResponse :: "schema_json \<Rightarrow> fetch_error + parsed_tool list" where
  "parseSchemaResponse schemaResponse =
     (case (case schemaResponse of
              ArrayFormat items \<Rightarrow> Inr (tool_entries items)
            | ObjectFormat entries \<Rightarrow> object_entries entries
            | OtherJson \<Rightarrow> Inl InvalidSchemaFormat) of
        Inl e \<Rightarrow> Inl e
      | Inr tools \<Rightarrow> if length tools = 0 then Inl NoToolsFound else Inr tools)"

text \<open>The conversion of the parsed tools that are kept, in order; reading the
  properties of a \<^verbatim>\<open>null\<close> input schema throws.\<close>

fun convert_tools :: "parsed_tool list \<Rightarrow> fetch_error + Tool list" where
  "convert_tools [] = Inr []"
| "convert_tools (parsedTool # rest) =
     (case pt_inputSchema parsedTool of
        None \<Rightarrow> Inl TypeError
      | Some inputSchema \<Rightarrow>
          (case convert_tools rest of
             Inl e \<Rightarrow> Inl e
           | Inr tools \<Rightarrow>
               Inr (\<lparr>tool_name = pt_name parsedTool,
                     tool_description =
                       (if truthy (pt_description parsedTool) then the (pt_description parsedTool)
                        else pt_name parsedTool @ js '' tool''),
                     tool_properties =
                       (case js_properties inputSchema of None \<Rightarrow> [] | Some ps \<Rightarrow> ps),
                     tool_required =
                       (case js_required inputSchema of None \<Rightarrow> [] | Some rs \<Rightarrow> rs),
                     tool_schema_description = js_description inputSchema\<rparr> # tools)))"

datatype SchemaResult =
    SchemaSuccess js_string CachedSchema bool
  | SchemaFailure js_string fetch_error

datatype schema_started =
    SchemaCached CachedSchema
  | SchemaPending http_request

definition schema_request :: "CachedSpaceMetadata \<Rightarrow> js_string option \<Rightarrow> http_request" where
  "schema_request metadata hfToken =
     \<lparr>req_url = js ''https://'' @ m_subdomain metadata @ js ''.hf.space/gradio_api/mcp/schema'',
      req_headers =
        [(js ''Content-Type'', js ''application/json'')]
        @ (if m_private metadata \<and> truthy hfToken
           then [(js ''X-HF-Authorization'', js ''Bearer '' @ the hfToken)] else [])\<rparr>"

definition fetchSchema_start ::
  "CACHE_CONFIG \<Rightarrow> int \<Rightarrow> CachedSpaceMetadata \<Rightarrow> js_string option \<Rightarrow> SchemaCache
     \<Rightarrow> schema_started \<times> SchemaCache" where
  "fetchSchema_start cfg now metadata hfToken c =
     (case SchemaCache_get cfg now (m_name metadata) c of
        (Some cached, c') \<Rightarrow> (SchemaCached cached, c')
      | (None, c') \<Rightarrow> (SchemaPending (schema_request metadata hfToken), c'))"

definition fetchSchema_finish ::
  "lower_case_mapping \<Rightarrow> int \<Rightarrow> CachedSpaceMetadata \<Rightarrow> schema_json http_reply \<Rightarrow> SchemaCache
     \<Rightarrow> SchemaResult \<times> SchemaCache" where
  "fetchSchema_finish lc now metadata reply c =
     (let spaceName = m_name metadata
      in case reply of
        FetchRejects \<Rightarrow> (SchemaFailure spaceName NetworkError, c)
      | Response status etagHeader body \<Rightarrow>
          if \<not> response_ok status then (SchemaFailure spaceName (HttpError status), c)
          else
            (case body of
               None \<Rightarrow> (SchemaFailure spaceName InvalidJson, c)
             | Some schemaResponse \<Rightarrow>
                 (case parseSchemaResponse schemaResponse of
                    Inl e \<Rightarrow> (SchemaFailure spaceName e, c)
                  | Inr parsed \<Rightarrow>
                      (case convert_tools
                              (filter (\<lambda>parsedTool.
                                  \<not> includes_str (js ''<lambda'') (toLowerCase lc (pt_name parsedTool)))
                                parsed) of
                         Inl e \<Rightarrow> (SchemaFailure spaceName e, c)
                       | Inr tools \<Rightarrow>
                           (let schema = \<lparr>s_tools = tools, s_fetchedAt = now\<rparr>
                            in if \<not> m_private metadata
                               then (SchemaSuccess spaceName schema False,
                                     SchemaCache_set spaceName schema c)
                               else (SchemaSuccess spaceName schema False, c))))))"

record schema_io =
  sio_lookup_time :: int
  sio_reply :: "http_request \<Rightarrow> schema_json http_reply"
  sio_reply_time :: int

definition schema_resume ::
  "lower_case_mapping \<Rightarrow> schema_io \<Rightarrow> CachedSpaceMetadata \<Rightarrow> schema_started \<Rightarrow> SchemaCache
     \<Rightarrow> SchemaResult \<times> SchemaCache" where
  "schema_resume lc io metadata started c =
     (case started of
        SchemaCached cached \<Rightarrow> (SchemaSuccess (m_name metadata) cached True, c)
      | SchemaPending request \<Rightarrow>
          fetchSchema_finish lc (sio_reply_time io) metadata (sio_reply io request) c)"

definition fetchSchema ::
  "lower_case_mapping \<Rightarrow> CACHE_CONFIG \<Rightarrow> schema_io \<Rightarrow> CachedSpaceMetadata \<Rightarrow> js_string option \<Rightarrow> SchemaCache
     \<Rightarrow> SchemaResult \<times> SchemaCache" where
  "fetchSchema lc cfg io metadata hfToken c =
     (case fetchSchema_start cfg (sio_lookup_time io) metadata hfToken c of
        (started, c') \<Rightarrow> schema_resume lc io metadata started c')"

fun schema_start_all ::
  "CACHE_CONFIG \<Rightarrow> (js_string \<Rightarrow> schema_io) \<Rightarrow> js_string option \<Rightarrow> CachedSpaceMetadata list
     \<Rightarrow> SchemaCache \<Rightarrow> (CachedSpaceMetadata \<times> schema_started) list \<times> SchemaCache" where
  "schema_start_all cfg env hfToken [] c = ([], c)"
| "schema_start_all cfg env hfToken (metadata # rest) c =
     (case fetchSchema_start cfg (sio_lookup_time (env (m_name metadata))) metadata hfToken c of
        (started, c') \<Rightarrow>
          (case schema_start_all cfg env hfToken rest c' of
             (others, c'') \<Rightarrow> ((metadata, started) # others, c'')))"

fun schema_resume_all ::
  "lower_case_mapping \<Rightarrow> (js_string \<Rightarrow> schema_io) \<Rightarrow> (CachedSpaceMetadata \<times> schema_started) list \<Rightarrow> SchemaCache
     \<Rightarrow> SchemaResult list \<times> SchemaCache" where
  "schema_resume_all lc env [] c = ([], c)"
| "schema_resume_all lc env ((metadata, started) # rest) c =
     (case schema_resume lc (env (m_name metadata)) metadata started c of
        (result, c') \<Rightarrow>
          (case schema_resume_all lc env rest c' of
             (others, c'') \<Rightarrow> (result # others, c'')))"

fun store_schemas ::
  "SchemaResult list \<Rightarrow> (js_string \<times> CachedSchema) list \<Rightarrow> (js_string \<times> CachedSchema) list" where
  "store_schemas [] results = results"
| "store_schemas (SchemaSuccess spaceName schema cached # rest) results =
     store_schemas rest (Map_set results spaceName schema)"
| "store_schemas (SchemaFailure spaceName err # rest) results = store_schemas rest results"

definition fetchSchemasWithCache ::
  "lower_case_mapping \<Rightarrow> CACHE_CONFIG \<Rightarrow> (js_string \<Rightarrow> schema_io) \<Rightarrow> CachedSpaceMetadata list \<Rightarrow> js_string option
     \<Rightarrow> SchemaCache \<Rightarrow> (js_string \<times> CachedSchema) list \<times> SchemaCache" where
  "fetchSchemasWithCache lc cfg env metadataList hfToken c =
     (if length metadataList = 0 then ([], c)
      else
        (case schema_start_all cfg env hfToken metadataList c of
           (started, c1) \<Rightarrow>
             (case schema_resume_all lc env started c1 of
                (schemaResults, c2) \<Rightarrow> (store_schemas schemaResults [], c2))))"

subsection \<open>The discovery\<close>

record GradioSpaceInfo =
  gs_name :: js_string
  gs_subdomain :: js_string
  gs_id :: js_string
  gs_emoji :: js_string
  gs_private :: bool
  gs_sdk :: js_string
  gs_tools :: "Tool list"
  gs_runtime :: "runtime_info option"
  gs_cached :: bool

record GetGradioSpacesOptions =
  skipSchemas :: "bool option"
  includeRuntime :: "bool option"
  timeout :: "int option"

text \<open>The record \<^verbatim>\<open>spaceInfo\<close> that the combination builds for one space.\<close>

definition make_space_info :: "CachedSpaceMetadata \<Rightarrow> Tool list \<Rightarrow> GradioSpaceInfo" where
  "make_space_info metadata tools =
     \<lparr>gs_name = m_name metadata,
      gs_subdomain = m_subdomain metadata,
      gs_id = m_id metadata,
      gs_emoji = m_emoji metadata,
      gs_private = m_private metadata,
      gs_sdk = m_sdk metadata,
      gs_tools = tools,
      gs_runtime = m_runtime metadata,
      gs_cached = False\<rparr>"

fun combineMetadataAndSchemas ::
  "(js_string \<times> CachedSpaceMetadata) list \<Rightarrow> (js_string \<times> CachedSchema) list \<Rightarrow> bool
     \<Rightarrow> GradioSpaceInfo list" where
  "combineMetadataAndSchemas [] schemaMap skip = []"
| "combineMetadataAndSchemas ((spaceName, metadata) # rest) schemaMap skip =
     (let schema = map_of schemaMap spaceName
      in if \<not> skip \<and> schema = None then combineMetadataAndSchemas rest schemaMap skip
         else make_space_info metadata (case schema of None \<Rightarrow> [] | Some s \<Rightarrow> s_tools s)
                # combineMetadataAndSchemas rest schemaMap skip)"

text \<open>The two caches of the module, and the environment of a discovery run.\<close>

record discovery_state =
  spaceMetadataCache :: SpaceMetadataCache
  schemaCache :: SchemaCache

record discovery_env =
  metadata_env :: "js_string \<Rightarrow> metadata_io"
  schema_env :: "js_string \<Rightarrow> schema_io"

definition is_gradio_metadata :: "CachedSpaceMetadata \<Rightarrow> bool" where
  "is_gradio_metadata m = (m_sdk m = js ''gradio'' \<and> m_subdomain m \<noteq> [])"

text \<open>\<^verbatim>\<open>!!options?.skipSchemas\<close>.\<close>

definition skip_requested :: "GetGradioSpacesOptions option \<Rightarrow> bool" where
  "skip_requested options =
     (case options of None \<Rightarrow> False | Some opts \<Rightarrow> skipSchemas opts = Some True)"

text \<open>
  \<^verbatim>\<open>getGradioSpaces\<close>.  The result is \<open>None\<close> when the batching loop
  does not end; otherwise the records and the caches after the run.
\<close>

definition getGradioSpaces ::
  "lower_case_mapping \<Rightarrow> CACHE_CONFIG \<Rightarrow> discovery_env \<Rightarrow> js_string list \<Rightarrow> js_string option
     \<Rightarrow> GetGradioSpacesOptions option \<Rightarrow> discovery_state
     \<Rightarrow> (GradioSpaceInfo list \<times> discovery_state) option" where
  "getGradioSpaces lc cfg env spaceNames hfToken options st =
     (if length spaceNames = 0 then Some ([], st)
      else
        (case fetchSpaceMetadataWithCache cfg (metadata_env env) spaceNames hfToken
                (spaceMetadataCache st) of
           None \<Rightarrow> None
         | Some (metadataMap, mc) \<Rightarrow>
             (let gradioMetadata = filter is_gradio_metadata (map snd metadataMap);
                  (schemaMap, sc) =
                    (if \<not> skip_requested options \<and> length gradioMetadata > 0
                     then fetchSchemasWithCache lc cfg (schema_env env) gradioMetadata hfToken
                            (schemaCache st)
                     else ([], schemaCache st));
                  results = combineMetadataAndSchemas metadataMap schemaMap (skip_requested options)
              in Some (results, \<lparr>spaceMetadataCache = mc, schemaCache = sc\<rparr>))))"

definition empty_caches :: discovery_state where
  "empty_caches =
     \<lparr>spaceMetadataCache = SpaceMetadataCache_empty, schemaCache = SchemaCache_empty\<rparr>"

subsection \<open>One space on its own\<close>

text \<open>
  What the fetches for one space give when they are made on their own from the
  caches \<open>st\<close>: the result of the metadata fetch for a name, and the result
  of the schema fetch for a metadata record.
\<close>

definition metadata_outcome ::
  "CACHE_CONFIG \<Rightarrow> discovery_env \<Rightarrow> js_string option \<Rightarrow> discovery_state \<Rightarrow> js_string
     \<Rightarrow> SpaceMetadataResult" where
  "metadata_outcome cfg env hfToken st spaceName =
     fst (fetchSpaceMetadata cfg (metadata_env env spaceName) spaceName hfToken
            (spaceMetadataCache st))"

definition schema_outcome ::
  "lower_case_mapping \<Rightarrow> CACHE_CONFIG \<Rightarrow> discovery_env \<Rightarrow> js_string option \<Rightarrow> discovery_state
     \<Rightarrow> CachedSpaceMetadata \<Rightarrow> SchemaResult" where
  "schema_outcome lc cfg env hfToken st metadata =
     fst (fetchSchema lc cfg (schema_env env (m_name metadata)) metadata hfToken (schemaCache st))"

text \<open>
  The record that a space is owed on the strength of its own fetches alone:
  none when its metadata fetch fails; with \<open>skip\<close>, the record of its
  metadata; otherwise none when it is not a Gradio space with a subdomain or
  its schema fetch fails, and else the record with the tools of its schema.
\<close>

definition space_record ::
  "lower_case_mapping \<Rightarrow> CACHE_CONFIG \<Rightarrow> discovery_env \<Rightarrow> js_string option \<Rightarrow> bool \<Rightarrow> discovery_state \<Rightarrow> js_string
     \<Rightarrow> GradioSpaceInfo option" where
  "space_record lc cfg env hfToken skip st spaceName =
     (case metadata_outcome cfg env hfToken st spaceName of
        MetadataFailure n err \<Rightarrow> None
      | MetadataSuccess metadata cached \<Rightarrow>
          if skip then Some (make_space_info metadata [])
          else if \<not> is_gradio_metadata metadata then None
          else
            (case schema_outcome lc cfg env hfToken st metadata of
               SchemaFailure n err \<Rightarrow> None
             | SchemaSuccess n schema c \<Rightarrow> Some (make_space_info metadata (s_tools schema))))"

text \<open>
  A space fails when its metadata fetch fails, or when schemas are wanted, it
  is a Gradio space, and its schema fetch fails.
\<close>

definition space_fails ::
  "lower_case_mapping \<Rightarrow> CACHE_CONFIG \<Rightarrow> discovery_env \<Rightarrow> js_string option \<Rightarrow> bool \<Rightarrow> discovery_state \<Rightarrow> js_string
     \<Rightarrow> bool" where
  "space_fails lc cfg env hfToken skip st spaceName =
     (case metadata_outcome cfg env hfToken st spaceName of
        MetadataFailure n err \<Rightarrow> True
      | MetadataSuccess metadata cached \<Rightarrow>
          \<not> skip \<and> is_gradio_metadata metadata
          \<and> (case schema_outcome lc cfg env hfToken st metadata of
                 SchemaFailure n err \<Rightarrow> True
               | SchemaSuccess n schema c \<Rightarrow> False))"

text \<open>A space whose metadata arrives and says it is not a Gradio space with a
  subdomain.\<close>

definition not_a_gradio_space ::
  "CACHE_CONFIG \<Rightarrow> discovery_env \<Rightarrow> js_string option \<Rightarrow> discovery_state \<Rightarrow> js_string \<Rightarrow> bool" where
  "not_a_gradio_space cfg env hfToken st spaceName =
     (case metadata_outcome cfg env hfToken st spaceName of
        MetadataFailure n err \<Rightarrow> False
      | MetadataSuccess metadata cached \<Rightarrow> \<not> is_gradio_metadata metadata)"

subsection \<open>Invariants of the caches\<close>

text \<open>Every entry of the metadata cache is the entry of a public space.\<close>

definition all_public :: "SpaceMetadataCache \<Rightarrow> bool" where
  "all_public c = (\<forall>k e. mc_cache c k = Some e \<longrightarrow> \<not> m_private e)"

text \<open>Every entry of the metadata cache is stored under its own name.\<close>

definition keyed_by_name :: "SpaceMetadataCache \<Rightarrow> bool" where
  "keyed_by_name c = (\<forall>k e. mc_cache c k = Some e \<longrightarrow> m_name e = k)"

subsection \<open>Concrete discovery inputs\<close>

definition cached_entry :: CachedSpaceMetadata where
  "cached_entry =
     \<lparr>m_id = js ''gradio_a-x'', m_name = js ''a/x'', m_subdomain = js ''a-x'', m_emoji = discovery_emoji,
      m_private = False, m_sdk = js ''gradio'', m_runtime = None, m_etag = Some (js ''W1''),
      m_fetchedAt = 1000\<rparr>"

definition warm_cache :: SpaceMetadataCache where
  "warm_cache = SpaceMetadataCache_set (js ''a/x'') cached_entry SpaceMetadataCache_empty"

definition not_modified_io :: metadata_io where
  "not_modified_io =
     \<lparr>io_lookup_time = 400000, io_reply = (\<lambda>request. Response 304 None None),
      io_reply_time = 400050\<rparr>"

definition static_site_info :: space_info where
  "static_site_info =
     \<lparr>info_id = None, info_subdomain = Some (js ''acme-site''), info_private = Some False,
      info_sdk = Some (js ''static''), info_runtime = None\<rparr>"

definition static_site_env :: discovery_env where
  "static_site_env =
     \<lparr>metadata_env = (\<lambda>spaceName.
        \<lparr>io_lookup_time = 0, io_reply = (\<lambda>request. Response 200 None (Some static_site_info)),
         io_reply_time = 5\<rparr>),
      schema_env = (\<lambda>spaceName.
        \<lparr>sio_lookup_time = 6, sio_reply = (\<lambda>request. FetchRejects), sio_reply_time = 7\<rparr>)\<rparr>"

definition skip_schemas_options :: GetGradioSpacesOptions where
  "skip_schemas_options = \<lparr>skipSchemas = Some True, includeRuntime = None, timeout = None\<rparr>"

subsection \<open>The results of the fetches\<close>

text \<open>The metadata of a metadata result and the schema of a schema result, if
  it is a success.\<close>

fun metadata_of :: "SpaceMetadataResult \<Rightarrow> CachedSpaceMetadata option" where
  "metadata_of (MetadataSuccess md cached) = Some md"
| "metadata_of (MetadataFailure n err) = None"

fun schema_of :: "SchemaResult \<Rightarrow> CachedSchema option" where
  "schema_of (SchemaSuccess n schema cached) = Some schema"
| "schema_of (SchemaFailure n err) = None"

subsection \<open>Concrete private and failing spaces\<close>

definition private_space_info :: space_info where
  "private_space_info =
     \<lparr>info_id = None, info_subdomain = Some (js ''acme-secret''), info_private = Some True,
      info_sdk = Some (js ''gradio''), info_runtime = None\<rparr>"

definition private_io :: metadata_io where
  "private_io =
     \<lparr>io_lookup_time = 0,
      io_reply = (\<lambda>request. Response 200 (Some (js ''E1'')) (Some private_space_info)),
      io_reply_time = 5\<rparr>"

definition private_metadata :: CachedSpaceMetadata where
  "private_metadata =
     \<lparr>m_id = js ''gradio_acme-secret'', m_name = js ''acme/secret'', m_subdomain = js ''acme-secret'',
      m_emoji = discovery_emoji, m_private = True, m_sdk = js ''gradio'', m_runtime = None,
      m_etag = Some (js ''E1''), m_fetchedAt = 5\<rparr>"

definition predict_tool_json :: schema_json where
  "predict_tool_json =
     ArrayFormat [ToolEntry \<lparr>pt_name = js ''predict'', pt_description = None,
       pt_inputSchema = Some \<lparr>js_properties = None, js_required = None, js_description = None\<rparr>\<rparr>]"

definition private_schema_io :: schema_io where
  "private_schema_io =
     \<lparr>sio_lookup_time = 6, sio_reply = (\<lambda>request. Response 200 None (Some predict_tool_json)),
      sio_reply_time = 7\<rparr>"

definition demo_space_info :: space_info where
  "demo_space_info =
     \<lparr>info_id = None, info_subdomain = Some (js ''demo''), info_private = Some False,
      info_sdk = Some (js ''gradio''), info_runtime = None\<rparr>"

text \<open>The Hub does not answer for \<^verbatim>\<open>a/broken\<close>; the schema endpoint of
  \<^verbatim>\<open>c/noschema\<close> answers \<^verbatim>\<open>503\<close>.\<close>

definition flaky_env :: discovery_env where
  "flaky_env =
     \<lparr>metadata_env = (\<lambda>spaceName.
        \<lparr>io_lookup_time = 0,
         io_reply = (\<lambda>request. if spaceName = js ''a/broken'' then FetchRejects
                                else Response 200 None (Some demo_space_info)),
         io_reply_time = 5\<rparr>),
      schema_env = (\<lambda>spaceName.
        \<lparr>sio_lookup_time = 6,
         sio_reply = (\<lambda>request. if spaceName = js ''c/noschema'' then Response 503 None None
                                 else Response 200 None (Some predict_tool_json)),
         sio_reply_time = 7\<rparr>)\<rparr>"

subsection \<open>The privacy check of the endpoint connector\<close>

text \<open>
  The default emoji of \<^verbatim>\<open>gradio-result-processor.ts\<close>.  The
  literal in that file is the four characters U+00F0, U+0178, U+201D and
  U+00A7 (again the UTF-8 bytes of the wrench, read in another encoding).
\<close>

definition connector_emoji :: js_string where
  "connector_emoji = [0x00F0, 0x0178, 0x201D, 0x00A7]"

text \<open>\<^verbatim>\<open>spaceName.replace('/', '-')\<close>: the first occurrence is replaced.\<close>

fun replace_first :: "code_unit \<Rightarrow> js_string \<Rightarrow> js_string \<Rightarrow> js_string" where
  "replace_first c r [] = []"
| "replace_first c r (x # xs) = (if x = c then r @ xs else x # replace_first c r xs)"

text \<open>
  \<^verbatim>\<open>isSpacePrivate\<close> is the other writer of the metadata cache.  It
  runs up to its \<^verbatim>\<open>await spaceInfo(...)\<close> and goes on with the
  answer, which is \<open>None\<close> when the call throws; any error makes the answer
  \<^verbatim>\<open>true\<close>.
\<close>

datatype private_started = PrivateAnswer bool | PrivatePending

definition isSpacePrivate_start ::
  "CACHE_CONFIG \<Rightarrow> int \<Rightarrow> js_string \<Rightarrow> js_string option \<Rightarrow> SpaceMetadataCache
     \<Rightarrow> private_started \<times> SpaceMetadataCache" where
  "isSpacePrivate_start cfg now spaceName hfToken c =
     (if \<not> truthy hfToken then (PrivateAnswer False, c)
      else
        (case SpaceMetadataCache_get cfg now spaceName c of
           (Some cached, c') \<Rightarrow> (PrivateAnswer (m_private cached), c')
         | (None, c') \<Rightarrow> (PrivatePending, c')))"

definition isSpacePrivate_finish ::
  "int \<Rightarrow> js_string \<Rightarrow> space_info option \<Rightarrow> SpaceMetadataCache \<Rightarrow> bool \<times> SpaceMetadataCache" where
  "isSpacePrivate_finish now spaceName reply c =
     (case reply of
        None \<Rightarrow> (True, c)
      | Some info \<Rightarrow>
          if info_private info \<noteq> Some True then
            (let metadata =
               \<lparr>m_id = (if truthy (info_id info) then the (info_id info)
                        else js ''gradio_'' @ replace_first (cu (CHR ''/'')) (js ''-'') spaceName),
                m_name = spaceName,
                m_subdomain = (if truthy (info_subdomain info) then the (info_subdomain info)
                               else []),
                m_emoji = connector_emoji,
                m_private = False,
                m_sdk = (if truthy (info_sdk info) then the (info_sdk info) else js ''gradio''),
                m_runtime = None,
                m_etag = None,
                m_fetchedAt = now\<rparr>
             in (False, SpaceMetadataCache_set spaceName metadata c))
          else (True, c))"

section \<open>Properties of the strings\<close>

lemma cu_eq_iff [simp]: "cu a = cu b \<longleftrightarrow> a = b"
proof
  assume "cu a = cu b"
  then have "unat (of_nat (of_char a) :: code_unit) = unat (of_nat (of_char b) :: code_unit)"
    by (simp add: cu_def)
  moreover have small: "(of_char c :: nat) < 2 ^ 16" for c
  proof -
    have "(of_char c :: nat) mod 256 < 256" by (rule mod_less_divisor) simp
    then have "(of_char c :: nat) < 256" by simp
    moreover have "(256::nat) < 2 ^ 16" by simp
    ultimately show ?thesis by (rule less_trans)
  qed
  ultimately have "(of_char a :: nat) = of_char b"
    using small [of a] small [of b] by (simp add: unat_of_nat)
  then show "a = b" by simp
qed simp

lemma js_eq_iff [simp]: "js s = js t \<longleftrightarrow> s = t"
  by (simp add: js_def inj_map_eq_map inj_on_def)

lemma js_Nil [simp]: "js [] = []"
  by (simp add: js_def)

lemma js_Cons: "js (c # cs) = cu c # js cs"
  by (simp add: js_def)

lemma js_eq_Nil [simp]: "js s = [] \<longleftrightarrow> s = []" "[] = js s \<longleftrightarrow> s = []"
  by (auto simp: js_def)

lemma length_js [simp]: "length (js s) = length s"
  by (simp add: js_def)

lemma js_append [simp]: "js a @ js b = js (a @ b)" "js a @ js b @ r = js (a @ b) @ r"
  by (simp_all add: js_def)

lemma set_js: "set (js s) = cu ` set s"
  by (simp add: js_def)

lemma toLowerCase_keeps_slash:
  assumes "cu (CHR ''/'') \<in> set s"
  shows "cu (CHR ''/'') \<in> set (toLowerCase lc s)"
proof -
  from assms obtain i where i: "i < length s" "s ! i = cu (CHR ''/'')"
    by (auto simp: in_set_conv_nth)
  have sl: "cu (CHR ''/'') < 0x80" "toLowerCase_ascii (cu (CHR ''/'')) = cu (CHR ''/'')"
    by (simp_all add: cu_def toLowerCase_ascii_def)
  define f where "f = (\<lambda>i. if s ! i < 0x80 then [toLowerCase_ascii (s ! i)] else lc s i)"
  with i sl have "cu (CHR ''/'') \<in> set (f i)"
    by simp
  with i(1) have "cu (CHR ''/'') \<in> set (concat (map f [0..<length s]))"
    by auto
  then show ?thesis
    by (simp only: toLowerCase_def f_def)
qed

lemma toLowerCase_ascii_only:
  assumes "\<forall>c\<in>set s. c < 0x80"
  shows "toLowerCase lc s = map toLowerCase_ascii s"
proof -
  have e1: "map (\<lambda>i. if s ! i < 0x80 then [toLowerCase_ascii (s ! i)] else lc s i) [0..<length s]
      = map (\<lambda>i. [toLowerCase_ascii (s ! i)]) [0..<length s]"
    using assms by (intro map_cong) auto
  have e2: "concat (map (\<lambda>i. [g i]) xs) = map g xs" for g :: "nat \<Rightarrow> code_unit" and xs
    by (induction xs) simp_all
  have e3: "map (\<lambda>i. toLowerCase_ascii (s ! i)) [0..<length s] = map toLowerCase_ascii s"
    by (simp add: map_equality_iff)
  show ?thesis
    unfolding toLowerCase_def e1 e2 e3 ..
qed

lemma none_no_slash: "toLowerCase lc e = js ''none'' \<Longrightarrow> cu (CHR ''/'') \<notin> set e"
  using toLowerCase_keeps_slash [of e lc] by (auto simp: set_js)

lemma is_whitespace_slash [simp]: "\<not> is_whitespace (cu (CHR ''/''))"
  by (simp add: is_whitespace_def white_space_units_def cu_def)

lemma is_whitespace_comma [simp]: "\<not> is_whitespace (cu (CHR '',''))"
  by (simp add: is_whitespace_def white_space_units_def cu_def)

lemma dropWhile_keeps: "\<not> P x \<Longrightarrow> x \<in> set xs \<Longrightarrow> x \<in> set (dropWhile P xs)"
  by (induction xs) auto

lemma set_trim_subset: "set (trim p) \<subseteq> set p"
  by (auto simp: trim_def dest!: set_dropWhileD)

lemma trim_keeps_slash: "cu (CHR ''/'') \<in> set s \<Longrightarrow> cu (CHR ''/'') \<in> set (trim s)"
  by (simp add: trim_def dropWhile_keeps)

text \<open>Trimming takes the white space off a text that has no white space at
  its own ends.\<close>

lemma dropWhile_all: "list_all P xs \<Longrightarrow> dropWhile P (xs @ ys) = dropWhile P ys"
  by (induction xs) simp_all

lemma trim_written:
  assumes "list_all is_whitespace l" and "list_all is_whitespace r"
    and "e \<noteq> [] \<longrightarrow> \<not> is_whitespace (hd e) \<and> \<not> is_whitespace (last e)"
  shows "trim (l @ e @ r) = e"
proof (cases "e = []")
  case True
  from assms(2) have "dropWhile is_whitespace r = []"
    by (induction r) simp_all
  with assms(1) have d: "dropWhile is_whitespace (l @ r) = []"
    by (simp add: dropWhile_all)
  show ?thesis
    by (simp only: True trim_def append_Nil d rev.simps dropWhile.simps)
next
  case False
  with assms(3) have h: "\<not> is_whitespace (hd e)" and t: "\<not> is_whitespace (last e)" by auto
  from False h have "dropWhile is_whitespace (e @ r) = e @ r"
    by (cases e) simp_all
  with assms(1) have 1: "dropWhile is_whitespace (l @ e @ r) = e @ r"
    by (simp add: dropWhile_all)
  from assms(2) have "list_all is_whitespace (rev r)" by (simp add: list_all_iff)
  then have "dropWhile is_whitespace (rev r @ rev e) = dropWhile is_whitespace (rev e)"
    by (rule dropWhile_all)
  also from False t have "\<dots> = rev e"
    by (cases "rev e") (auto simp: last_rev [symmetric] simp del: last_rev)
  finally show ?thesis by (simp add: trim_def 1)
qed

text \<open>Splitting and joining.\<close>

lemma split_on_not_Nil [simp]: "split_on d s \<noteq> []"
  by (induction s) (auto split: list.splits)

lemma split_on_no_separator: "d \<notin> set p \<Longrightarrow> split_on d p = [p]"
  by (induction p) auto

lemma split_on_append:
  "d \<notin> set p \<Longrightarrow> split_on d (p @ d # rest) = p # split_on d rest"
  by (induction p) (auto split: list.splits)

lemma split_join:
  "\<forall>p\<in>set ps. d \<notin> set p \<Longrightarrow> ps \<noteq> [] \<Longrightarrow> split_on d (join_with d ps) = ps"
  by (induction d ps rule: join_with.induct) (simp_all add: split_on_no_separator split_on_append)

lemma join_split: "join_with d (split_on d s) = s"
proof (induction s)
  case Nil
  then show ?case by simp
next
  case (Cons c s)
  obtain p ps where sp: "split_on d s = p # ps" by (cases "split_on d s") simp_all
  with Cons show ?case by (cases ps) auto
qed

lemma split_on_pieces: "p \<in> set (split_on d s) \<Longrightarrow> d \<notin> set p"
  by (induction s arbitrary: p) (auto split: list.splits if_splits)

lemma set_join_with: "p \<in> set ps \<Longrightarrow> set p \<subseteq> set (join_with d ps)"
  by (induction d ps rule: join_with.induct) auto

section \<open>Properties of the caches\<close>

lemma SpaceMetadataCache_get_entries [simp]:
  "mc_cache (snd (SpaceMetadataCache_get cfg now k c)) = mc_cache c"
  by (simp add: SpaceMetadataCache_get_def Let_def split: option.splits)

lemma SpaceMetadataCache_get_revalidations [simp]:
  "mc_etagRevalidations (snd (SpaceMetadataCache_get cfg now k c)) = mc_etagRevalidations c"
  by (simp add: SpaceMetadataCache_get_def Let_def split: option.splits)

lemma SpaceMetadataCache_get_stored [simp]:
  "mc_stored (snd (SpaceMetadataCache_get cfg now k c)) = mc_stored c"
  by (simp add: SpaceMetadataCache_get_def Let_def split: option.splits)

lemma SpaceMetadataCache_get_replaced [simp]:
  "mc_replaced (snd (SpaceMetadataCache_get cfg now k c)) = mc_replaced c"
  by (simp add: SpaceMetadataCache_get_def Let_def split: option.splits)

lemma SchemaCache_get_entries [simp]:
  "sc_cache (snd (SchemaCache_get cfg now k c)) = sc_cache c"
  by (simp add: SchemaCache_get_def Let_def split: option.splits)

lemma SpaceMetadataCache_gets_entries [simp]:
  "mc_cache (SpaceMetadataCache_gets cfg rs c) = mc_cache c"
  by (induction cfg rs c rule: SpaceMetadataCache_gets.induct) simp_all

lemma SchemaCache_gets_entries [simp]:
  "sc_cache (SchemaCache_gets cfg rs c) = sc_cache c"
  by (induction cfg rs c rule: SchemaCache_gets.induct) simp_all

lemma SpaceMetadataCache_get_result:
  "fst (SpaceMetadataCache_get cfg now k c) =
     (case mc_cache c k of
        None \<Rightarrow> None
      | Some e \<Rightarrow> if now < m_fetchedAt e + SPACE_METADATA_TTL cfg then Some e else None)"
  by (auto simp: SpaceMetadataCache_get_def Let_def split: option.splits)

lemma SchemaCache_get_result:
  "fst (SchemaCache_get cfg now k c) =
     (case sc_cache c k of
        None \<Rightarrow> None
      | Some e \<Rightarrow> if now < s_fetchedAt e + SCHEMA_TTL cfg then Some e else None)"
  by (auto simp: SchemaCache_get_def Let_def split: option.splits)

text \<open>
  C4.  The TTL is measured from the creation of the entry.  An entry stored
  with \<open>fetchedAt = t\<^sub>0\<close> is a hit for a read at time \<open>t\<close> exactly when
  \<open>t < t\<^sub>0 + TTL\<close> and a miss when \<open>t \<ge> t\<^sub>0 + TTL\<close>, and this stays so
  after any number of intermediate reads (of any keys, at any times): reads
  leave every entry, and so every \<open>fetchedAt\<close>, as it was.  The same holds for
  the schema cache.
\<close>

theorem cache_ttl_from_creation:
  "fst (SpaceMetadataCache_get cfg t n
          (SpaceMetadataCache_gets cfg reads (SpaceMetadataCache_set n md c)))
     = (if t < m_fetchedAt md + SPACE_METADATA_TTL cfg then Some md else None)
   \<and> mc_cache (SpaceMetadataCache_gets cfg reads (SpaceMetadataCache_set n md c)) n = Some md
   \<and> mc_cache (snd (SpaceMetadataCache_get cfg t n
          (SpaceMetadataCache_gets cfg reads (SpaceMetadataCache_set n md c)))) n = Some md
   \<and> fst (SchemaCache_get cfg t n (SchemaCache_gets cfg reads (SchemaCache_set n sch sc)))
     = (if t < s_fetchedAt sch + SCHEMA_TTL cfg then Some sch else None)
   \<and> sc_cache (SchemaCache_gets cfg reads (SchemaCache_set n sch sc)) n = Some sch
   \<and> sc_cache (snd (SchemaCache_get cfg t n
          (SchemaCache_gets cfg reads (SchemaCache_set n sch sc)))) n = Some sch"
  by (simp add: SpaceMetadataCache_get_result SchemaCache_get_result
        SpaceMetadataCache_set_def SchemaCache_set_def)

section \<open>The image-content filter\<close>

lemma toLowerCase_image [simp]: "toLowerCase lc (js ''image'') = js ''image''"
  by (subst toLowerCase_ascii_only) (simp_all add: js_Cons cu_def toLowerCase_ascii_def)

lemma keep_item_not_image: "keep_item lc x \<Longrightarrow> \<not> is_image_block x"
  by (cases "(lc, x)" rule: keep_item.cases) auto

lemma image_not_kept: "is_image_block x \<Longrightarrow> \<not> keep_item lc x"
  by (cases "(lc, x)" rule: keep_item.cases) auto

lemma filter_all_kept: "length (filter P xs) = length xs \<Longrightarrow> \<forall>x\<in>set xs. P x"
  by (metis length_filter_less less_irrefl_nat)
  
lemma omission_not_image: "\<not> is_image_block omission_block"
  by (simp add: omission_block_def)

text \<open>
  C10.  With the filter enabled, no block of the returned content has the type
  \<^verbatim>\<open>image\<close>.  If the content before the filter was a non-empty array
  of image blocks only, the result is the input with its content replaced by
  the single text block that explains the omission.  With the filter disabled,
  the result is the input.  (An empty content array is returned as it is: the
  function leaves before filtering.)
\<close>

theorem image_filter:
  "(enabled opts \<longrightarrow>
      (\<forall>xs. content (stripImageContentFromResult lc r opts) = Some xs
         \<longrightarrow> (\<forall>x\<in>set xs. \<not> is_image_block x)))
   \<and> (enabled opts \<and> content r = Some ys \<and> ys \<noteq> [] \<and> (\<forall>y\<in>set ys. is_image_block y)
        \<longrightarrow> stripImageContentFromResult lc r opts = r\<lparr>content := Some [omission_block]\<rparr>)
   \<and> (\<not> enabled opts \<longrightarrow> stripImageContentFromResult lc r opts = r)"
proof (intro conjI impI allI)
  fix xs
  assume en: "enabled opts" and res: "content (stripImageContentFromResult lc r opts) = Some xs"
  show "\<forall>x\<in>set xs. \<not> is_image_block x"
  proof (cases "content r")
    case None
    with en res show ?thesis by (simp add: stripImageContentFromResult_def)
  next
    case (Some cont)
    show ?thesis
    proof (cases "length (filter (keep_item lc) cont) = length cont")
      case True
      then have "\<forall>x\<in>set cont. keep_item lc x" by (rule filter_all_kept)
      moreover from True en res Some have "xs = cont"
        by (simp add: stripImageContentFromResult_def Let_def split: if_splits)
      ultimately show ?thesis by (auto dest: keep_item_not_image)
    next
      case False
      then have ne: "cont \<noteq> []" by auto
      show ?thesis
      proof (cases "filter (keep_item lc) cont = []")
        case True
        with False ne en res Some have "xs = [omission_block]"
          by (simp add: stripImageContentFromResult_def Let_def)
        then show ?thesis by (simp add: omission_not_image)
      next
        case nonempty: False
        with False ne en res Some have "xs = filter (keep_item lc) cont"
          by (simp add: stripImageContentFromResult_def Let_def)
        then show ?thesis by (auto dest: keep_item_not_image)
      qed
    qed
  qed
next
  assume a: "enabled opts \<and> content r = Some ys \<and> ys \<noteq> [] \<and> (\<forall>y\<in>set ys. is_image_block y)"
  then have "filter (keep_item lc) ys = []"
    by (auto simp: filter_empty_conv dest: image_not_kept)
  with a show "stripImageContentFromResult lc r opts = r\<lparr>content := Some [omission_block]\<rparr>"
    by (simp add: stripImageContentFromResult_def Let_def)
next
  assume "\<not> enabled opts"
  then show "stripImageContentFromResult lc r opts = r"
    by (simp add: stripImageContentFromResult_def)
qed


theorem image_filter_witness:
  "enabled image_filter_on
   \<and> content image_result = Some [Block (TypeString (js ''image'')) (js ''png-data'')]
   \<and> is_image_block (Block (TypeString (js ''image'')) (js ''png-data''))
   \<and> content (stripImageContentFromResult keep_other_units image_result image_filter_on) = Some [omission_block]
   \<and> \<not> enabled image_filter_off
   \<and> stripImageContentFromResult keep_other_units image_result image_filter_off = image_result"
  using image_filter [of image_filter_on keep_other_units image_result
      "[Block (TypeString (js ''image'')) (js ''png-data'')]"]
    image_filter [of image_filter_off keep_other_units image_result "[]"]
  by (simp add: image_result_def image_filter_on_def image_filter_off_def)


section \<open>Space identifiers\<close>

lemma indexOf_absent: "d \<notin> set e \<Longrightarrow> indexOf d e = -1"
  by (induction e) (auto simp: Let_def)

lemma indexOf_present: "d \<in> set e \<Longrightarrow> indexOf d e = int (length (takeWhile (\<lambda>c. c \<noteq> d) e))"
  by (induction e) (auto simp: Let_def indexOf_absent)

lemma count_one_mem: "length (filter (\<lambda>c. c = d) e) = Suc 0 \<Longrightarrow> d \<in> set e"
  by (induction e) (auto split: if_splits)

lemma isValidFormat_spec: "isValidFormat e = spec_valid_entry e"
proof (cases "length (filter (\<lambda>c. c = cu (CHR ''/'')) e) = 1")
  case False
  then show ?thesis by (simp add: isValidFormat_def spec_valid_entry_def Let_def)
next
  case True
  then have mem: "cu (CHR ''/'') \<in> set e" by (simp add: count_one_mem)
  have len: "length (takeWhile (\<lambda>c. c \<noteq> cu (CHR ''/'')) e)
      + length (dropWhile (\<lambda>c. c \<noteq> cu (CHR ''/'')) e) = length e"
    by (metis length_append takeWhile_dropWhile_id)
  with True mem show ?thesis
    by (auto simp: isValidFormat_def spec_valid_entry_def Let_def indexOf_present not_le)
qed

lemma no_slash_invalid: "cu (CHR ''/'') \<notin> set e \<Longrightarrow> \<not> spec_valid_entry e"
  by (auto simp: spec_valid_entry_def dest: count_one_mem)

lemma parse_entries_eq:
  "map space_name (parse_entries lc es acc) = map space_name acc @ filter spec_valid_entry es"
proof (induction es arbitrary: acc)
  case Nil
  then show ?case by simp
next
  case (Cons e es)
  show ?case
  proof (cases "toLowerCase lc e = js ''none''")
    case True
    then have "\<not> spec_valid_entry e" by (intro no_slash_invalid none_no_slash)
    with True Cons show ?thesis by simp
  next
    case False
    with Cons show ?thesis by (simp add: isValidFormat_spec)
  qed
qed

lemma valid_nonempty [simp]: "(e \<noteq> [] \<and> spec_valid_entry e) = spec_valid_entry e"
  by (auto simp: spec_valid_entry_def)

lemma none_spelling:
  assumes "x \<in> set none_spellings"
  shows "toLowerCase lc x = js ''none''"
    and "x \<noteq> []" and "\<not> is_whitespace (hd x)" and "\<not> is_whitespace (last x)"
proof -
  from assms have ascii: "\<forall>c\<in>set x. c < 0x80"
    by (auto simp: none_spellings_def cu_def)
  from assms have "map toLowerCase_ascii x = js ''none''"
    by (auto simp: none_spellings_def cu_def toLowerCase_ascii_def js_Cons)
  with ascii show "toLowerCase lc x = js ''none''"
    by (simp add: toLowerCase_ascii_only)
  from assms show "x \<noteq> []" and "\<not> is_whitespace (hd x)" and "\<not> is_whitespace (last x)"
    by (auto simp: none_spellings_def cu_def is_whitespace_def white_space_units_def)
qed

text \<open>Every string is a list of written entries, joined by commas.\<close>

lemma written_entries_cover:
  "list_all well_written (written_entries s)
   \<and> join_with (cu (CHR '','')) (map entry_written (written_entries s)) = s"
proof -
  let ?P = is_whitespace
  have parts: "takeWhile ?P p @ trim p @ rev (takeWhile ?P (rev (dropWhile ?P p))) = p" for p
  proof -
    let ?q = "dropWhile ?P p"
    have "rev (takeWhile ?P (rev ?q) @ dropWhile ?P (rev ?q)) = ?q"
      by (simp only: takeWhile_dropWhile_id rev_rev_ident)
    then have "rev (dropWhile ?P (rev ?q)) @ rev (takeWhile ?P (rev ?q)) = ?q"
      by (simp only: rev_append)
    then have "takeWhile ?P p @ rev (dropWhile ?P (rev ?q)) @ rev (takeWhile ?P (rev ?q))
        = takeWhile ?P p @ ?q"
      by (simp only:)
    then show ?thesis
      by (simp only: trim_def takeWhile_dropWhile_id)
  qed
  have ends: "\<not> ?P (hd (trim p)) \<and> \<not> ?P (last (trim p))" if "trim p \<noteq> []" for p
  proof -
    let ?q = "dropWhile ?P p"
    let ?t = "dropWhile ?P (rev ?q)"
    from that have t: "?t \<noteq> []" by (simp add: trim_def)
    then have "\<not> ?P (hd ?t)" by (rule hd_dropWhile)
    then have l: "\<not> ?P (last (trim p))"
      using t by (simp add: trim_def last_rev)
    have q: "?q \<noteq> []"
    proof
      assume "?q = []"
      with t show False by simp
    qed
    then have hq: "\<not> ?P (hd ?q)" by (rule hd_dropWhile)
    have "rev (takeWhile ?P (rev ?q) @ ?t) = ?q"
      by (simp only: takeWhile_dropWhile_id rev_rev_ident)
    then have "trim p @ rev (takeWhile ?P (rev ?q)) = ?q"
      by (simp only: trim_def rev_append)
    with that have "hd (trim p) = hd ?q"
      by (metis hd_append2)
    with hq l show ?thesis by simp
  qed
  have ww: "well_written (takeWhile ?P p, trim p, rev (takeWhile ?P (rev (dropWhile ?P p))))"
    if "cu (CHR '','') \<notin> set p" for p
  proof -
    have "list_all ?P (takeWhile ?P p)"
      by (auto simp: list_all_iff dest: set_takeWhileD)
    moreover have "list_all ?P (rev (takeWhile ?P (rev (dropWhile ?P p))))"
      by (auto simp: list_all_iff dest: set_takeWhileD)
    moreover from that have "cu (CHR '','') \<notin> set (trim p)"
      using set_trim_subset [of p] by auto
    ultimately show ?thesis
      using ends [of p] by (simp add: well_written_def)
  qed
  have 1: "list_all well_written (written_entries s)"
    unfolding written_entries_def list_all_iff
    by (auto intro!: ww dest: split_on_pieces)
  have "map entry_written (written_entries s) = split_on (cu (CHR '','')) s"
    by (simp add: written_entries_def entry_written_def o_def parts)
  then have 2: "join_with (cu (CHR '','')) (map entry_written (written_entries s)) = s"
    by (simp add: join_split)
  from 1 2 show ?thesis by simp
qed

text \<open>
  C8.  The value \<^verbatim>\<open>none\<close>, spelled in upper-case or lower-case letters
  and with white space around it, gives the empty list (and so does every
  string that reads \<^verbatim>\<open>none\<close> after trimming and lower-casing).
  Every string is a list of entries separated by commas, each written as white
  space, a text without white space at its ends, and white space.  For every
  such list that is joined by commas, the names returned are the texts of the
  entries that have exactly one slash with non-empty text on both sides, in
  the order of the list; every other entry is skipped.
\<close>

theorem parseGradioSpaceIds_spec:
  "(list_all is_whitespace l \<and> list_all is_whitespace r \<and> x \<in> set none_spellings
      \<longrightarrow> parseGradioSpaceIds lc (l @ x @ r) = [])
   \<and> (toLowerCase lc (trim s) = js ''none'' \<longrightarrow> parseGradioSpaceIds lc s = [])
   \<and> (\<exists>ws. list_all well_written ws \<and> join_with (cu (CHR '','')) (map entry_written ws) = s)
   \<and> (list_all well_written es
      \<longrightarrow> map space_name
            (parseGradioSpaceIds lc (join_with (cu (CHR '','')) (map entry_written es)))
          = filter spec_valid_entry (map entry_text es))"
proof -
  have general: "parseGradioSpaceIds lc s = []" if "toLowerCase lc (trim s) = js ''none''" for s
    using that by (simp add: parseGradioSpaceIds_def)
  have 1: "parseGradioSpaceIds lc (l @ x @ r) = []"
    if "list_all is_whitespace l" "list_all is_whitespace r" "x \<in> set none_spellings"
  proof -
    from that have "trim (l @ x @ r) = x"
      by (intro trim_written) (simp_all add: none_spelling)
    with that(3) show ?thesis by (intro general) (simp add: none_spelling)
  qed
  have 3: "\<exists>ws. list_all well_written ws \<and> join_with (cu (CHR '','')) (map entry_written ws) = s"
    using written_entries_cover [of s] by blast
  have 4: "map space_name
            (parseGradioSpaceIds lc (join_with (cu (CHR '','')) (map entry_written es)))
          = filter spec_valid_entry (map entry_text es)"
    if ww: "list_all well_written es"
  proof (cases "es = []")
    case True
    have "toLowerCase lc [] = []" by (simp add: toLowerCase_def)
    with True show ?thesis
      by (simp add: parseGradioSpaceIds_def trim_def)
  next
    case False
    let ?comma = "cu (CHR '','')"
    let ?input = "join_with ?comma (map entry_written es)"
    have nocomma: "?comma \<notin> set (entry_written p)" if "p \<in> set es" for p
    proof -
      obtain b e a where p: "p = (b, e, a)" by (cases p)
      with ww that have w: "list_all is_whitespace b" "list_all is_whitespace a" "?comma \<notin> set e"
        by (auto simp: list_all_iff well_written_def)
      from w(1,2) have "?comma \<notin> set b" "?comma \<notin> set a"
        by (auto simp: list_all_iff)
      with w(3) show ?thesis by (simp add: p entry_written_def)
    qed
    have trimmed: "trim (entry_written p) = entry_text p" if "p \<in> set es" for p
    proof -
      obtain b e a where p: "p = (b, e, a)" by (cases p)
      with ww that have "trim (b @ e @ a) = e"
        by (intro trim_written) (auto simp: list_all_iff well_written_def)
      then show ?thesis by (simp add: p entry_written_def entry_text_def)
    qed
    have "split_on ?comma ?input = map entry_written es"
      using False nocomma by (intro split_join) auto
    then have entries: "map trim (split_on ?comma ?input) = map entry_text es"
      using trimmed by simp
    show ?thesis
    proof (cases "toLowerCase lc (trim ?input) = js ''none''")
      case True
      then have "cu (CHR ''/'') \<notin> set (trim ?input)" by (rule none_no_slash)
      then have ns: "cu (CHR ''/'') \<notin> set ?input" using trim_keeps_slash by blast
      have "cu (CHR ''/'') \<notin> set (entry_text p)" if "p \<in> set es" for p
      proof -
        from that have "set (entry_written p) \<subseteq> set ?input"
          by (intro set_join_with) simp
        moreover have "set (entry_text p) \<subseteq> set (entry_written p)"
          by (cases p) (auto simp: entry_text_def entry_written_def)
        ultimately show ?thesis using ns by auto
      qed
      then have "filter spec_valid_entry (map entry_text es) = []"
        by (auto simp: filter_empty_conv dest: no_slash_invalid)
      with True show ?thesis by (simp add: general)
    next
      case no: False
      then show ?thesis
        by (simp add: parseGradioSpaceIds_def Let_def parse_entries_eq entries)
    qed
  qed
  from 1 general [of s] 3 4 show ?thesis by blast
qed

theorem parseGradioSpaceIds_witness:
  "list_all is_whitespace (js '' '') \<and> js ''NoNe'' \<in> set none_spellings
   \<and> parseGradioSpaceIds keep_other_units (js '' NoNe '') = []
   \<and> toLowerCase keep_other_units (trim (js ''none'')) = js ''none''
   \<and> parseGradioSpaceIds keep_other_units (js ''none'') = []
   \<and> list_all well_written
        [(js '' '', js ''acme/demo'', []), ([], js ''none'', js '' ''), ([], js ''bad'', [])]
   \<and> map space_name (parseGradioSpaceIds keep_other_units (js '' acme/demo,none ,bad''))
       = [js ''acme/demo'']"
proof -
  let ?es = "[(js '' '', js ''acme/demo'', []), ([], js ''none'', js '' ''), ([], js ''bad'', [])]"
  have sp: "cu (CHR '' '') = 0x20" by (simp add: cu_def)
  have w: "list_all is_whitespace (js '' '')"
    by (simp add: js_Cons sp is_whitespace_def white_space_units_def)
  have n: "js ''NoNe'' \<in> set none_spellings"
    by (simp add: none_spellings_def js_Cons)
  have ww: "list_all well_written ?es"
    by (simp add: well_written_def js_Cons cu_def is_whitespace_def white_space_units_def)
  have j: "join_with (cu (CHR '','')) (map entry_written ?es) = js '' acme/demo,none ,bad''"
    by (simp add: entry_written_def js_Cons)
  have v: "filter spec_valid_entry (map entry_text ?es) = [js ''acme/demo'']"
    by (simp add: entry_text_def spec_valid_entry_def js_Cons)
  have a: "js '' '' @ js ''NoNe'' @ js '' '' = js '' NoNe ''" by simp
  have "js ''none'' \<in> set none_spellings"
    by (simp add: none_spellings_def js_Cons)
  then have "toLowerCase keep_other_units (js ''none'') = js ''none''"
    by (rule none_spelling(1))
  moreover have "trim (js ''none'') = js ''none''"
    using trim_written [of "[]" "[]" "js ''none''"]
    by (simp add: js_Cons cu_def is_whitespace_def white_space_units_def)
  ultimately have t: "toLowerCase keep_other_units (trim (js ''none'')) = js ''none''"
    by simp
  from parseGradioSpaceIds_spec
    [of "js '' ''" "js '' ''" "js ''NoNe''" keep_other_units "js ''none''" ?es] w n ww t
  have "parseGradioSpaceIds keep_other_units (js '' '' @ js ''NoNe'' @ js '' '') = []"
    and "parseGradioSpaceIds keep_other_units (js ''none'') = []"
    and "map space_name (parseGradioSpaceIds keep_other_units
            (join_with (cu (CHR '','')) (map entry_written ?es)))
          = filter spec_valid_entry (map entry_text ?es)"
    by blast+
  then show ?thesis
    using w n ww t unfolding a j v by simp
qed

section \<open>Generated tool names\<close>

lemma length_Number_toString_le:
  "0 < k \<Longrightarrow> n < 10 ^ k \<Longrightarrow> length (Number_toString n) \<le> k"
proof (induction k arbitrary: n)
  case 0
  then show ?case by simp
next
  case (Suc k)
  show ?case
  proof (cases "n < 10")
    case True
    then show ?thesis by (simp add: Number_toString.simps [of n])
  next
    case False
    with Suc.prems have k: "0 < k" by (cases k) auto
    from Suc.prems have "n div 10 < 10 ^ k" by (simp add: less_mult_imp_div_less mult.commute)
    with k Suc.IH have "length (Number_toString (n div 10)) \<le> k" by blast
    with False show ?thesis by (simp add: Number_toString.simps [of n])
  qed
qed

lemma length_Number_toString_pos: "0 < length (Number_toString n)"
  by (simp add: Number_toString.simps [of n])

lemma length_index_string:
  assumes "n < 2 ^ 32"
  shows "length (Number_toString n) \<le> 10" and "length (Number_toString (n + 1)) \<le> 10"
proof -
  have "(2::nat) ^ 32 < 10 ^ 10" by simp
  with assms have "n < 10 ^ 10" and "n + 1 < 10 ^ 10" by linarith+
  then show "length (Number_toString n) \<le> 10" and "length (Number_toString (n + 1)) \<le> 10"
    by (simp_all add: length_Number_toString_le)
qed

lemma slice_from_last: "0 < k \<Longrightarrow> slice_from (- int k) s = drop (length s - k) s"
  by (simp add: slice_from_def nat_diff_distrib')

text \<open>
  C9.  For a space index and a tool index that are array positions (below
  \<open>2\<^sup>3\<^sup>2\<close>), the generated name has at most 49 characters (UTF-16
  code units, as \<^verbatim>\<open>length\<close> counts them), for every tool name and
  every lower-case mapping of the characters outside ASCII.  It is the
  prefix \<^verbatim>\<open>gr\<close> (public) or \<^verbatim>\<open>grp\<close> (private), the space
  index plus one in decimal, an underscore, and then the sanitized name if that
  fits the remaining budget, and otherwise the optional tool index with an
  underscore, the first 20 characters of the sanitized name, an underscore, and
  the last \<open>k\<close> characters of the sanitized name, where \<open>k > 0\<close> fills
  the budget.
\<close>

theorem createGradioToolName_shape:
  fixes lc :: lower_case_mapping and toolName :: js_string and index :: nat
    and isPrivate :: "bool option" and toolIndex :: "nat option"
  assumes idx: "index < 2 ^ 32"
    and tidx: "case toolIndex of None \<Rightarrow> True | Some ti \<Rightarrow> ti < 2 ^ 32"
  defines "prefix \<equiv> (if isPrivate = Some True then js ''grp'' else js ''gr'')"
    and "indexStr \<equiv> Number_toString (index + 1)"
    and "tip \<equiv> (case toolIndex of None \<Rightarrow> [] | Some ti \<Rightarrow> Number_toString ti @ js ''_'')"
    and "san \<equiv> sanitizedName lc toolName"
  defines "budget \<equiv> 49 - length prefix - length indexStr - 1"
  defines "k \<equiv> budget - length tip - 21"
  shows "length (createGradioToolName lc toolName index isPrivate toolIndex) \<le> 49
    \<and> createGradioToolName lc toolName index isPrivate toolIndex
        = prefix @ indexStr @ js ''_'' @
            (if length san \<le> budget then san
             else tip @ take 20 san @ js ''_'' @ drop (length san - k) san)
    \<and> 0 < k"
proof -
  have li: "length indexStr \<le> 10" "0 < length indexStr"
    unfolding indexStr_def
    by (rule length_index_string(2) [OF idx], rule length_Number_toString_pos)
  have lp: "length prefix = 2 \<or> length prefix = 3"
    by (simp add: prefix_def)
  have lt: "length tip \<le> 11"
    using tidx by (auto simp: tip_def length_index_string split: option.splits)
  have b: "35 \<le> budget" "budget + length prefix + length indexStr + 1 = 49"
    using li lp by (auto simp: budget_def)
  have kpos: "0 < k" "k + length tip + 21 = budget"
    using b lt by (auto simp: k_def)
  have maxlen: "49 - int (length prefix) - int (length indexStr) - 1 = int budget"
    using b by linarith
  have keep1: "int budget - int (length tip) - 20 - 1 = int k"
    using kpos by linarith
  have sl: "slice_from a san = drop (length san - k) san" if "a = - int k" for a
    using that kpos by (simp add: slice_from_def nat_diff_distrib')
  have eq: "createGradioToolName lc toolName index isPrivate toolIndex
        = prefix @ indexStr @ js ''_'' @
            (if length san \<le> budget then san
             else tip @ take 20 san @ js ''_'' @ drop (length san - k) san)"
  proof (cases toolIndex)
    case None
    then have t: "tip = []" by (simp add: tip_def)
    have "slice_from (- (49 - int (length prefix) - int (length indexStr) - 1 - 20 - 1)) san
            = drop (length san - k) san"
      using maxlen keep1 t by (intro sl) simp
    moreover have "(49 - int (length prefix) - int (length indexStr) - 1 < int (length san))
            = (\<not> length san \<le> budget)"
      using maxlen by linarith
    ultimately show ?thesis
      unfolding createGradioToolName_def Let_def GRADIO_PREFIX_def GRADIO_PRIVATE_PREFIX_def
        prefix_def [symmetric] indexStr_def [symmetric] san_def [symmetric]
      by (simp only: None t option.case append_Nil if_not_P if_P split: if_splits) auto
  next
    case (Some ti)
    then have t: "tip = Number_toString ti @ js ''_''" by (simp add: tip_def)
    have "slice_from (- (49 - int (length prefix) - int (length indexStr) - 1
              - int (length (Number_toString ti @ js ''_'')) - 20 - 1)) san
            = drop (length san - k) san"
      using maxlen keep1 t by (intro sl) simp
    moreover have "(49 - int (length prefix) - int (length indexStr) - 1 < int (length san))
            = (\<not> length san \<le> budget)"
      using maxlen by linarith
    ultimately show ?thesis
      unfolding createGradioToolName_def Let_def GRADIO_PREFIX_def GRADIO_PRIVATE_PREFIX_def
        prefix_def [symmetric] indexStr_def [symmetric] san_def [symmetric]
      by (simp only: Some t option.case if_not_P if_P split: if_splits) auto
  qed
  have len: "length (createGradioToolName lc toolName index isPrivate toolIndex) \<le> 49"
  proof (cases "length san \<le> budget")
    case True
    with eq b show ?thesis by simp
  next
    case False
    then have "35 < length san" using b by linarith
    with False eq b kpos show ?thesis by (simp add: min_def)
  qed
  from len eq kpos show ?thesis by blast
qed


theorem createGradioToolName_witness:
  "(2::nat) < 2 ^ 32 \<and> (7::nat) < 2 ^ 32
   \<and> length (createGradioToolName keep_other_units long_tool_name 2 (Some True) (Some 7)) \<le> 49
   \<and> createGradioToolName keep_other_units long_tool_name 2 (Some True) (Some 7)
       = js ''grp3_7_a_very_long_tool_nam_nd_on_and_on_for_ever''"
proof -
  have v: "createGradioToolName keep_other_units long_tool_name 2 (Some True) (Some 7)
       = js ''grp3_7_a_very_long_tool_nam_nd_on_and_on_for_ever''"
    by code_simp
  have h1: "(2::nat) < 2 ^ 32" by simp
  have h2: "case Some (7::nat) of None \<Rightarrow> True | Some ti \<Rightarrow> ti < 2 ^ 32" by simp
  have "length (createGradioToolName keep_other_units long_tool_name 2 (Some True) (Some 7)) \<le> 49"
    using createGradioToolName_shape [OF h1 h2, of keep_other_units long_tool_name "Some True"] by (rule conjunct1)
  with v show ?thesis by simp
qed

section \<open>Tool selection\<close>

lemma BOUQUETS_lookup_empty [simp]: "BOUQUETS_lookup i [] = None"
  by (simp add: BOUQUETS_lookup_def BOUQUETS_def Object_prototype_names_def)

lemma applySearchEnablesFetch_off:
  "SEARCH_ENABLES_FETCH deps \<noteq> Some (js ''true'') \<Longrightarrow> applySearchEnablesFetch deps xs = xs"
  by (simp add: applySearchEnablesFetch_def)

lemma applySearchEnablesFetch_update [simp]:
  "applySearchEnablesFetch
     (deps\<lparr>test_environment := te, getToolStates := g, getGradioEndpoints := e, externalApiMode := x\<rparr>) xs
   = applySearchEnablesFetch deps xs"
  by (simp add: applySearchEnablesFetch_def)

text \<open>
  C2 (as amended).  When the bouquet taken from the headers names a preset,
  \<^verbatim>\<open>selectTools\<close> answers in mode \<open>BOUQUET_OVERRIDE\<close> and the enabled
  tools are the preset's tools after the conditional expansion
  (\<^verbatim>\<open>SEARCH_ENABLES_FETCH\<close>) and the normalizer; they are the preset's
  list itself when the expansion is off and the normalizer leaves that list
  alone.  The whole result is the same for every value of the user settings and
  of the token in the context, and for every behaviour of the API client: the
  user settings are not consulted.
\<close>

theorem bouquet_override:
  assumes b: "ex_bouquet (extractAuthBouquetAndMix deps (ctx_headers context)) = Some b"
    and p: "BOUQUETS_lookup (ids deps) b = Some (Preset preset)"
  shows "map_option mode (selectTools lc deps context) = Some BOUQUET_OVERRIDE
    \<and> map_option enabledToolIds (selectTools lc deps context)
        = Some (normalizeBuiltInTools deps (applySearchEnablesFetch deps (builtInTools preset)))
    \<and> (SEARCH_ENABLES_FETCH deps \<noteq> Some (js ''true'')
         \<and> normalizeBuiltInTools deps (builtInTools preset) = builtInTools preset
        \<longrightarrow> map_option enabledToolIds (selectTools lc deps context) = Some (builtInTools preset))
    \<and> selectTools lc deps (context\<lparr>ctx_userSettings := u, ctx_hfToken := t\<rparr>) = selectTools lc deps context
    \<and> selectTools lc
         (deps\<lparr>test_environment := te, getToolStates := g, getGradioEndpoints := e,
                externalApiMode := x\<rparr>) context
        = selectTools lc deps context"
proof -
  let ?ex = "extractAuthBouquetAndMix deps (ctx_headers context)"
  from p have ne: "b \<noteq> []" by auto
  have sel: "selectTools lc d c = Some
      \<lparr>mode = BOUQUET_OVERRIDE,
       enabledToolIds = normalizeBuiltInTools d (applySearchEnablesFetch d (builtInTools preset)),
       reason = js ''Bouquet override: '' @ b
          @ gradio_suffix (if truthy (ex_gradio (extractAuthBouquetAndMix d (ctx_headers c)))
               then parseGradioEndpoints lc (the (ex_gradio (extractAuthBouquetAndMix d (ctx_headers c)))) else []),
       baseSettings = None, mixedBouquet = None,
       gradioSpaceTools = gradio_field
          (if truthy (ex_gradio (extractAuthBouquetAndMix d (ctx_headers c)))
               then parseGradioEndpoints lc (the (ex_gradio (extractAuthBouquetAndMix d (ctx_headers c)))) else [])\<rparr>"
    if "ex_bouquet (extractAuthBouquetAndMix d (ctx_headers c)) = Some b"
      and "BOUQUETS_lookup (ids d) b = Some (Preset preset)" for d c
    using that ne by (simp add: selectTools_def Let_def)
  note s0 = sel [OF b p]
  have s1: "selectTools lc deps (context\<lparr>ctx_userSettings := u, ctx_hfToken := t\<rparr>) = selectTools lc deps context"
    using b p by (subst sel, simp, simp, subst sel, simp, simp, simp)
  have s2: "selectTools lc
         (deps\<lparr>test_environment := te, getToolStates := g, getGradioEndpoints := e,
                externalApiMode := x\<rparr>) context
        = selectTools lc deps context"
    using b p by (subst sel, simp, simp, subst sel, simp, simp, simp)
  from s1 s2 show ?thesis
    by (simp add: s0 applySearchEnablesFetch_off)
qed

lemma sample_search: "BOUQUETS_lookup sample_ids (js ''search'') =
   Some (Preset \<lparr>builtInTools = [js ''space_search'', js ''model_search'', js ''dataset_search'', js ''paper_search'', js ''hf_doc_search''], spaceTools = []\<rparr>)"
  by (simp add: BOUQUETS_lookup_def BOUQUETS_def sample_ids_def)

text \<open>
  C2 as stated fails: with \<^verbatim>\<open>SEARCH_ENABLES_FETCH=true\<close> and a search
  preset that has \<^verbatim>\<open>hf_doc_search\<close> without \<^verbatim>\<open>hf_doc_fetch\<close>,
  the header \<^verbatim>\<open>x-mcp-bouquet: search\<close> enables the preset's tools and
  \<^verbatim>\<open>hf_doc_fetch\<close>.
\<close>

theorem bouquet_verbatim_counterexample:
  "ex_bouquet (extractAuthBouquetAndMix sample_deps (ctx_headers search_bouquet_context)) = Some (js ''search'')
   \<and> BOUQUETS_lookup (ids sample_deps) (js ''search'')
       = Some (Preset \<lparr>builtInTools = [js ''space_search'', js ''model_search'', js ''dataset_search'',
                                js ''paper_search'', js ''hf_doc_search''], spaceTools = []\<rparr>)
   \<and> map_option enabledToolIds (selectTools keep_other_units sample_deps search_bouquet_context)
       = Some [js ''space_search'', js ''model_search'', js ''dataset_search'', js ''paper_search'',
          js ''hf_doc_search'', js ''hf_doc_fetch'']
   \<and> map_option enabledToolIds (selectTools keep_other_units sample_deps search_bouquet_context)
       \<noteq> Some [js ''space_search'', js ''model_search'', js ''dataset_search'', js ''paper_search'',
            js ''hf_doc_search'']"
  by (simp add: selectTools_def Let_def sample_deps_def search_bouquet_context_def header_extract_def
        sample_search applySearchEnablesFetch_def)

theorem bouquet_override_witness:
  "ex_bouquet (extractAuthBouquetAndMix sample_deps (ctx_headers search_bouquet_context)) = Some (js ''search'')
   \<and> BOUQUETS_lookup (ids sample_deps) (js ''search'')
       = Some (Preset \<lparr>builtInTools = [js ''space_search'', js ''model_search'', js ''dataset_search'',
                                js ''paper_search'', js ''hf_doc_search''], spaceTools = []\<rparr>)
   \<and> map_option mode (selectTools keep_other_units sample_deps search_bouquet_context) = Some BOUQUET_OVERRIDE"
proof -
  have b: "ex_bouquet (extractAuthBouquetAndMix sample_deps (ctx_headers search_bouquet_context)) = Some (js ''search'')"
    by (simp add: sample_deps_def search_bouquet_context_def header_extract_def)
  have p: "BOUQUETS_lookup (ids sample_deps) (js ''search'')
       = Some (Preset \<lparr>builtInTools = [js ''space_search'', js ''model_search'', js ''dataset_search'',
                                js ''paper_search'', js ''hf_doc_search''], spaceTools = []\<rparr>)"
    by (simp add: sample_deps_def sample_search)
  from bouquet_override [OF b p] b p show ?thesis by blast
qed

subsection \<open>The spread of a Set\<close>

lemma set_Set_add_all [simp]: "set (Set_add_all acc xs) = set acc \<union> set xs"
  by (induction acc xs rule: Set_add_all.induct) auto

lemma distinct_Set_add_all: "distinct acc \<Longrightarrow> distinct (Set_add_all acc xs)"
  by (induction acc xs rule: Set_add_all.induct) auto

lemma Set_add_all_split:
  "Set_add_all acc xs = acc @ Set_add_all [] (filter (\<lambda>x. x \<notin> set acc) xs)"
proof (induction "length xs" arbitrary: xs acc rule: less_induct)
  case less
  show ?case
  proof (cases xs)
    case Nil
    then show ?thesis by simp
  next
    case (Cons x ys)
    have l1: "length ys < length xs" using Cons by simp
    have l2: "length (filter (\<lambda>y. y \<notin> set acc) ys) < length xs"
      using Cons by (simp add: le_imp_less_Suc)
    show ?thesis
    proof (cases "x \<in> set acc")
      case True
      with less [OF l1, of acc] Cons show ?thesis by simp
    next
      case False
      have "Set_add_all acc (x # ys) = Set_add_all (acc @ [x]) ys" using False by simp
      also have "\<dots> = (acc @ [x]) @ Set_add_all [] (filter (\<lambda>y. y \<notin> set (acc @ [x])) ys)"
        by (rule less [OF l1])
      also have "filter (\<lambda>y. y \<notin> set (acc @ [x])) ys
          = filter (\<lambda>y. y \<notin> set [x]) (filter (\<lambda>y. y \<notin> set acc) ys)"
        by (auto intro: filter_cong)
      also have "(acc @ [x]) @ Set_add_all [] (filter (\<lambda>y. y \<notin> set [x]) (filter (\<lambda>y. y \<notin> set acc) ys))
          = acc @ Set_add_all [x] (filter (\<lambda>y. y \<notin> set acc) ys)"
        using less [OF l2, of "[x]"] by simp
      also have "\<dots> = acc @ Set_add_all [] (filter (\<lambda>y. y \<notin> set acc) (x # ys))"
        using False by simp
      finally show ?thesis using Cons by simp
    qed
  qed
qed

lemma Set_add_all_append: "Set_add_all acc (xs @ ys) = Set_add_all (Set_add_all acc xs) ys"
  by (induction acc xs rule: Set_add_all.induct) auto

lemma spread_Set_set [simp]: "set (spread_Set xs) = set xs"
  by (simp add: spread_Set_def)

lemma spread_Set_distinct [simp]: "distinct (spread_Set xs)"
  by (simp add: spread_Set_def distinct_Set_add_all)

lemma spread_Set_append:
  "spread_Set (xs @ ys) = spread_Set xs @ spread_Set (filter (\<lambda>y. y \<notin> set xs) ys)"
  unfolding spread_Set_def
  by (subst Set_add_all_append, subst Set_add_all_split) simp

lemma spread_Set_Cons: "spread_Set (x # xs) = x # spread_Set (filter (\<lambda>y. y \<noteq> x) xs)"
  using spread_Set_append [of "[x]" xs] by (simp add: spread_Set_def)

lemma remdups_snoc: "remdups (ys @ [x]) = remdups (filter (\<lambda>y. y \<noteq> x) ys) @ [x]"
  by (induction ys) auto

lemma spread_Set_remdups: "spread_Set xs = rev (remdups (rev xs))"
proof (induction "length xs" arbitrary: xs rule: less_induct)
  case less
  show ?case
  proof (cases xs)
    case Nil
    then show ?thesis by (simp add: spread_Set_def)
  next
    case (Cons x ys)
    have "length (filter (\<lambda>y. y \<noteq> x) ys) < length xs"
      using Cons by (simp add: le_imp_less_Suc)
    then have ih: "spread_Set (filter (\<lambda>y. y \<noteq> x) ys) = rev (remdups (rev (filter (\<lambda>y. y \<noteq> x) ys)))"
      by (rule less)
    have "remdups (rev ys @ [x]) = remdups (filter (\<lambda>y. y \<noteq> x) (rev ys)) @ [x]"
      by (rule remdups_snoc)
    then have "rev (remdups (rev (x # ys))) = x # rev (remdups (rev (filter (\<lambda>y. y \<noteq> x) ys)))"
      by (simp add: rev_filter)
    with ih Cons show ?thesis by (simp add: spread_Set_Cons)
  qed
qed

lemma getUserSettings_update [simp]: "ctx_userSettings context = Some U \<Longrightarrow> getUserSettings deps context = Some U"
  by (simp add: getUserSettings_def)

text \<open>
  C3 (as amended).  When the mix taken from the headers names a preset, the
  bouquet (if any) is not the name of a property of \<^verbatim>\<open>BOUQUETS\<close>,
  neither of a preset nor of an inherited one, and user settings \<open>U\<close> are
  available, then
  \<^verbatim>\<open>selectTools\<close> answers in mode \<open>MIX\<close> and the enabled tools are the
  deduplicated concatenation of \<open>U\<close>'s tools and the preset's tools, after
  the conditional expansion and the normalizer; they are that deduplicated
  concatenation itself when the expansion is off and the normalizer leaves it
  alone.  The deduplicated concatenation keeps the first occurrence of every
  tool, in order: it has no duplicates, the same elements as the two lists, and
  starts with the user's tools.
\<close>

theorem mix_additive:
  assumes m: "ex_mix (extractAuthBouquetAndMix deps (ctx_headers context)) = Some m"
    and p: "BOUQUETS_lookup (ids deps) m = Some (Preset preset)"
    and nb: "case ex_bouquet (extractAuthBouquetAndMix deps (ctx_headers context)) of
               None \<Rightarrow> True | Some b \<Rightarrow> BOUQUETS_lookup (ids deps) b = None"
    and u: "getUserSettings deps context = Some U"
  shows "map_option mode (selectTools lc deps context) = Some MIX
    \<and> map_option enabledToolIds (selectTools lc deps context)
        = Some (normalizeBuiltInTools deps
            (applySearchEnablesFetch deps (spread_Set (builtInTools U @ builtInTools preset))))
    \<and> (SEARCH_ENABLES_FETCH deps \<noteq> Some (js ''true'')
         \<and> normalizeBuiltInTools deps (spread_Set (builtInTools U @ builtInTools preset))
             = spread_Set (builtInTools U @ builtInTools preset)
        \<longrightarrow> map_option enabledToolIds (selectTools lc deps context)
             = Some (spread_Set (builtInTools U @ builtInTools preset)))
    \<and> spread_Set (builtInTools U @ builtInTools preset)
        = rev (remdups (rev (builtInTools U @ builtInTools preset)))
    \<and> distinct (spread_Set (builtInTools U @ builtInTools preset))
    \<and> set (spread_Set (builtInTools U @ builtInTools preset))
        = set (builtInTools U) \<union> set (builtInTools preset)
    \<and> spread_Set (builtInTools U @ builtInTools preset)
        = spread_Set (builtInTools U)
            @ spread_Set (filter (\<lambda>t. t \<notin> set (builtInTools U)) (builtInTools preset))"
proof -
  let ?ex = "extractAuthBouquetAndMix deps (ctx_headers context)"
  have nob: "(if truthy (ex_bouquet ?ex) then BOUQUETS_lookup (ids deps) (the (ex_bouquet ?ex)) else None) = None"
    using nb by (cases "ex_bouquet ?ex") auto
  from p have "m \<noteq> []" by auto
  with m p have mp: "(if truthy (ex_mix ?ex) then BOUQUETS_lookup (ids deps) (the (ex_mix ?ex)) else None)
       = Some (Preset preset)"
    by simp
  have 1: "map_option mode (selectTools lc deps context) = Some MIX"
    using nob mp u by (simp add: selectTools_def Let_def)
  have 2: "map_option enabledToolIds (selectTools lc deps context)
        = Some (normalizeBuiltInTools deps
            (applySearchEnablesFetch deps (spread_Set (builtInTools U @ builtInTools preset))))"
    using nob mp u by (simp add: selectTools_def Let_def)
  have 3: "SEARCH_ENABLES_FETCH deps \<noteq> Some (js ''true'')
         \<and> normalizeBuiltInTools deps (spread_Set (builtInTools U @ builtInTools preset))
             = spread_Set (builtInTools U @ builtInTools preset)
        \<longrightarrow> map_option enabledToolIds (selectTools lc deps context)
             = Some (spread_Set (builtInTools U @ builtInTools preset))"
    by (simp only: 2) (simp add: applySearchEnablesFetch_off)
  have 4: "spread_Set (builtInTools U @ builtInTools preset)
        = rev (remdups (rev (builtInTools U @ builtInTools preset)))"
    by (rule spread_Set_remdups)
  have 5: "distinct (spread_Set (builtInTools U @ builtInTools preset))"
    by (rule spread_Set_distinct)
  have 6: "set (spread_Set (builtInTools U @ builtInTools preset))
        = set (builtInTools U) \<union> set (builtInTools preset)"
    by simp
  have 7: "spread_Set (builtInTools U @ builtInTools preset)
        = spread_Set (builtInTools U)
            @ spread_Set (filter (\<lambda>t. t \<notin> set (builtInTools U)) (builtInTools preset))"
    by (rule spread_Set_append)
  show ?thesis
    using 1 2 3 4 5 6 7 by (intro conjI)
qed

lemma sample_jobs: "BOUQUETS_lookup sample_ids (js ''jobs'')
    = Some (Preset \<lparr>builtInTools = [js ''hf_jobs''], spaceTools = []\<rparr>)"
  by (simp add: BOUQUETS_lookup_def BOUQUETS_def sample_ids_def)

lemma sample_docs: "BOUQUETS_lookup sample_ids (js ''docs'')
    = Some (Preset \<lparr>builtInTools = [js ''hf_doc_search'', js ''hf_doc_fetch''], spaceTools = []\<rparr>)"
  by (simp add: BOUQUETS_lookup_def BOUQUETS_def sample_ids_def)

text \<open>
  A bouquet header with a name that \<^verbatim>\<open>BOUQUETS\<close> inherits takes the
  bouquet branch, whatever the mix says; with
  \<^verbatim>\<open>SEARCH_ENABLES_FETCH=true\<close> the call throws there.
\<close>

lemma sample_constructor: "BOUQUETS_lookup sample_ids (js ''constructor'') = Some Inherited"
  by (simp add: BOUQUETS_lookup_def BOUQUETS_def sample_ids_def Object_prototype_names_def)

lemma inherited_bouquet_throws:
  "ex_bouquet (extractAuthBouquetAndMix sample_deps (ctx_headers constructor_bouquet_context))
     = Some (js ''constructor'')
   \<and> ex_mix (extractAuthBouquetAndMix sample_deps (ctx_headers constructor_bouquet_context))
     = Some (js ''jobs'')
   \<and> selectTools keep_other_units sample_deps constructor_bouquet_context = None"
  by (simp add: selectTools_def Let_def sample_deps_def constructor_bouquet_context_def
        header_extract_def sample_constructor)

text \<open>
  C3 as stated fails in two ways.  With \<^verbatim>\<open>SEARCH_ENABLES_FETCH=true\<close>,
  user tools that contain \<^verbatim>\<open>hf_doc_search\<close> and the mix
  \<^verbatim>\<open>jobs\<close>, the result has \<^verbatim>\<open>hf_doc_fetch\<close> in addition to
  the deduplicated concatenation.  And with a bouquet header that names a
  preset next to the mix header, the bouquet wins and the mix is not applied.
\<close>

theorem mix_dedup_counterexample:
  "ex_mix (extractAuthBouquetAndMix sample_deps (ctx_headers jobs_mix_context)) = Some (js ''jobs'')
   \<and> BOUQUETS_lookup (ids sample_deps) (js ''jobs'') = Some (Preset \<lparr>builtInTools = [js ''hf_jobs''], spaceTools = []\<rparr>)
   \<and> getUserSettings sample_deps jobs_mix_context
       = Some \<lparr>builtInTools = [js ''hf_doc_search'', js ''model_search''], spaceTools = []\<rparr>
   \<and> map_option enabledToolIds (selectTools keep_other_units sample_deps jobs_mix_context)
       = Some [js ''hf_doc_search'', js ''model_search'', js ''hf_jobs'', js ''hf_doc_fetch'']
   \<and> spread_Set ([js ''hf_doc_search'', js ''model_search''] @ [js ''hf_jobs''])
       = [js ''hf_doc_search'', js ''model_search'', js ''hf_jobs'']
   \<and> map_option enabledToolIds (selectTools keep_other_units sample_deps jobs_mix_context)
       \<noteq> Some (spread_Set ([js ''hf_doc_search'', js ''model_search''] @ [js ''hf_jobs'']))
   \<and> ex_mix (extractAuthBouquetAndMix sample_deps (ctx_headers bouquet_and_mix_context)) = Some (js ''docs'')
   \<and> BOUQUETS_lookup (ids sample_deps) (js ''docs'')
       = Some (Preset \<lparr>builtInTools = [js ''hf_doc_search'', js ''hf_doc_fetch''], spaceTools = []\<rparr>)
   \<and> getUserSettings sample_deps bouquet_and_mix_context
       = Some \<lparr>builtInTools = [js ''model_search''], spaceTools = []\<rparr>
   \<and> map_option mode (selectTools keep_other_units sample_deps bouquet_and_mix_context) = Some BOUQUET_OVERRIDE
   \<and> map_option enabledToolIds (selectTools keep_other_units sample_deps bouquet_and_mix_context) = Some [js ''hf_jobs'']
   \<and> map_option enabledToolIds (selectTools keep_other_units sample_deps bouquet_and_mix_context)
       \<noteq> Some (spread_Set ([js ''model_search''] @ [js ''hf_doc_search'', js ''hf_doc_fetch'']))"
  by (simp add: selectTools_def Let_def sample_deps_def jobs_mix_context_def
        bouquet_and_mix_context_def header_extract_def sample_jobs sample_docs
        applySearchEnablesFetch_def getUserSettings_def spread_Set_def)

theorem mix_additive_witness:
  "ex_mix (extractAuthBouquetAndMix sample_deps (ctx_headers jobs_mix_context)) = Some (js ''jobs'')
   \<and> BOUQUETS_lookup (ids sample_deps) (js ''jobs'') = Some (Preset \<lparr>builtInTools = [js ''hf_jobs''], spaceTools = []\<rparr>)
   \<and> ex_bouquet (extractAuthBouquetAndMix sample_deps (ctx_headers jobs_mix_context)) = None
   \<and> getUserSettings sample_deps jobs_mix_context
       = Some \<lparr>builtInTools = [js ''hf_doc_search'', js ''model_search''], spaceTools = []\<rparr>
   \<and> map_option mode (selectTools keep_other_units sample_deps jobs_mix_context) = Some MIX"
proof -
  have m: "ex_mix (extractAuthBouquetAndMix sample_deps (ctx_headers jobs_mix_context)) = Some (js ''jobs'')"
    by (simp add: sample_deps_def jobs_mix_context_def header_extract_def)
  have p: "BOUQUETS_lookup (ids sample_deps) (js ''jobs'') = Some (Preset \<lparr>builtInTools = [js ''hf_jobs''], spaceTools = []\<rparr>)"
    by (simp add: sample_deps_def sample_jobs)
  have b: "ex_bouquet (extractAuthBouquetAndMix sample_deps (ctx_headers jobs_mix_context)) = None"
    by (simp add: sample_deps_def jobs_mix_context_def header_extract_def)
  then have nb: "case ex_bouquet (extractAuthBouquetAndMix sample_deps (ctx_headers jobs_mix_context)) of
               None \<Rightarrow> True | Some b \<Rightarrow> BOUQUETS_lookup (ids sample_deps) b = None"
    by simp
  have u: "getUserSettings sample_deps jobs_mix_context
       = Some \<lparr>builtInTools = [js ''hf_doc_search'', js ''model_search''], spaceTools = []\<rparr>"
    by (simp add: getUserSettings_def jobs_mix_context_def)
  from mix_additive [OF m p nb u] m p b u show ?thesis by blast
qed

section \<open>Metadata fetches\<close>

lemma start_entries [simp]:
  "mc_cache (snd (fetchSpaceMetadata_start cfg t n tok c)) = mc_cache c"
  by (simp add: fetchSpaceMetadata_start_def Let_def split: prod.splits option.splits)
     (metis SpaceMetadataCache_get_entries snd_conv)

lemma start_revalidations [simp]:
  "mc_etagRevalidations (snd (fetchSpaceMetadata_start cfg t n tok c)) = mc_etagRevalidations c"
  by (simp add: fetchSpaceMetadata_start_def Let_def split: prod.splits option.splits)
     (metis SpaceMetadataCache_get_revalidations snd_conv)

lemma start_stored [simp]:
  "mc_stored (snd (fetchSpaceMetadata_start cfg t n tok c)) = mc_stored c"
  by (simp add: fetchSpaceMetadata_start_def Let_def split: prod.splits option.splits)
     (metis SpaceMetadataCache_get_stored snd_conv)

lemma start_replaced [simp]:
  "mc_replaced (snd (fetchSpaceMetadata_start cfg t n tok c)) = mc_replaced c"
  by (simp add: fetchSpaceMetadata_start_def Let_def split: prod.splits option.splits)
     (metis SpaceMetadataCache_get_replaced snd_conv)

lemma start_result:
  "fst (fetchSpaceMetadata_start cfg t n tok c) =
     (case mc_cache c n of
        None \<Rightarrow> MetadataPending None (metadata_request n tok None)
      | Some e \<Rightarrow>
          if t < m_fetchedAt e + SPACE_METADATA_TTL cfg then MetadataCached e
          else MetadataPending (Some (mc_stored c n, e)) (metadata_request n tok (m_etag e)))"
proof -
  obtain r c' where g: "SpaceMetadataCache_get cfg t n c = (r, c')" by (cases "SpaceMetadataCache_get cfg t n c")
  then have r: "r = fst (SpaceMetadataCache_get cfg t n c)" and c': "mc_cache c' = mc_cache c"
    "mc_stored c' = mc_stored c"
    by (simp, metis SpaceMetadataCache_get_entries snd_conv,
        metis SpaceMetadataCache_get_stored snd_conv)
  show ?thesis
    using g c' unfolding r SpaceMetadataCache_get_result
    by (auto simp: fetchSpaceMetadata_start_def Let_def SpaceMetadataCache_getForRevalidation_def
          SpaceMetadataCache_get_result r split: option.splits if_splits)
qed


lemma truthy_the: "truthy x \<Longrightarrow> the x \<noteq> []"
  by (cases x) auto

lemma finish_cases:
  obtains
    (failure) err where
      "\<And>c. fetchSpaceMetadata_finish now n stale reply c = (MetadataFailure n err, c)"
  | (revalidated) ref where "stale = Some ref"
      "\<And>c. fetchSpaceMetadata_finish now n stale reply c
         = (MetadataSuccess (stale_object n ref (SpaceMetadataCache_updateTimestamp now n c)) True,
            SpaceMetadataCache_updateTimestamp now n c)"
  | (fresh_public) md where "\<not> m_private md" "m_name md = n" "m_subdomain md \<noteq> []"
      "\<And>c. fetchSpaceMetadata_finish now n stale reply c
         = (MetadataSuccess md False, SpaceMetadataCache_set n md c)"
  | (fresh_private) md where "m_private md" "m_name md = n" "m_subdomain md \<noteq> []"
      "\<And>c. fetchSpaceMetadata_finish now n stale reply c = (MetadataSuccess md False, c)"
proof (cases reply)
  case FetchRejects
  then show ?thesis by (intro failure) (simp add: fetchSpaceMetadata_finish_def Let_def)
next
  case (Response status etagHeader body)
  show ?thesis
  proof (cases "status = 304 \<and> stale \<noteq> None")
    case True
    then obtain ref where "stale = Some ref" by auto
    with True Response show ?thesis
      by (intro revalidated [of ref]) (simp_all add: fetchSpaceMetadata_finish_def Let_def)
  next
    case no304: False
    show ?thesis
    proof (cases "response_ok status")
      case False
      with no304 Response show ?thesis
        by (intro failure) (simp add: fetchSpaceMetadata_finish_def Let_def)
    next
      case ok: True
      show ?thesis
      proof (cases body)
        case None
        with no304 ok Response show ?thesis
          by (intro failure) (simp add: fetchSpaceMetadata_finish_def Let_def)
      next
        case (Some info)
        show ?thesis
        proof (cases "truthy (info_subdomain info)")
          case False
          with no304 ok Response Some show ?thesis
            by (intro failure) (simp add: fetchSpaceMetadata_finish_def Let_def)
        next
          case sub: True
          let ?md = "new_metadata now n (if truthy etagHeader then etagHeader else None) info"
          have nm: "m_name ?md = n" and sd: "m_subdomain ?md \<noteq> []"
            using sub by (simp_all add: new_metadata_def truthy_the)
          show ?thesis
          proof (cases "m_private ?md")
            case True
            with no304 ok Response Some sub nm sd show ?thesis
              by (intro fresh_private [of ?md]) (simp_all add: fetchSpaceMetadata_finish_def Let_def)
          next
            case False
            with no304 ok Response Some sub nm sd show ?thesis
              by (intro fresh_public [of ?md]) (simp_all add: fetchSpaceMetadata_finish_def Let_def)
          qed
        qed
      qed
    qed
  qed
qed

lemma set_other_keys [simp]: "k \<noteq> n \<Longrightarrow> mc_cache (SpaceMetadataCache_set n md c) k = mc_cache c k"
  by (simp add: SpaceMetadataCache_set_def)

lemma updateTimestamp_other_keys [simp]:
  "k \<noteq> n \<Longrightarrow> mc_cache (SpaceMetadataCache_updateTimestamp now n c) k = mc_cache c k"
  by (simp add: SpaceMetadataCache_updateTimestamp_def split: option.splits)

lemma finish_other_keys:
  "k \<noteq> n \<Longrightarrow> mc_cache (snd (fetchSpaceMetadata_finish now n stale reply c)) k = mc_cache c k"
  by (cases rule: finish_cases [of now n stale reply]) simp_all

lemma all_public_set: "all_public c \<Longrightarrow> \<not> m_private md \<Longrightarrow> all_public (SpaceMetadataCache_set n md c)"
  by (simp add: all_public_def SpaceMetadataCache_set_def)

lemma all_public_updateTimestamp:
  "all_public c \<Longrightarrow> all_public (SpaceMetadataCache_updateTimestamp now n c)"
  by (auto simp: all_public_def SpaceMetadataCache_updateTimestamp_def split: option.splits if_splits)

lemma keyed_set: "keyed_by_name c \<Longrightarrow> m_name md = n \<Longrightarrow> keyed_by_name (SpaceMetadataCache_set n md c)"
  by (simp add: keyed_by_name_def SpaceMetadataCache_set_def)

lemma keyed_updateTimestamp:
  "keyed_by_name c \<Longrightarrow> keyed_by_name (SpaceMetadataCache_updateTimestamp now n c)"
  by (auto simp: keyed_by_name_def SpaceMetadataCache_updateTimestamp_def split: option.splits if_splits)

lemma finish_all_public:
  "all_public c \<Longrightarrow> all_public (snd (fetchSpaceMetadata_finish now n stale reply c))"
  by (cases rule: finish_cases [of now n stale reply])
     (simp_all add: all_public_set all_public_updateTimestamp)

lemma finish_keyed_by_name:
  "keyed_by_name c \<Longrightarrow> keyed_by_name (snd (fetchSpaceMetadata_finish now n stale reply c))"
  by (cases rule: finish_cases [of now n stale reply])
     (simp_all add: keyed_set keyed_updateTimestamp)

text \<open>The objects of the other keys are not touched, and the result of the
  second half looks at nothing but the objects of its own key.\<close>

lemma set_other_objects [simp]:
  "k \<noteq> n \<Longrightarrow> mc_stored (SpaceMetadataCache_set n md c) k = mc_stored c k"
  "k \<noteq> n \<Longrightarrow> mc_replaced (SpaceMetadataCache_set n md c) k = mc_replaced c k"
  by (simp_all add: SpaceMetadataCache_set_def split: option.splits)

lemma updateTimestamp_objects [simp]:
  "mc_stored (SpaceMetadataCache_updateTimestamp now n c) = mc_stored c"
  "mc_replaced (SpaceMetadataCache_updateTimestamp now n c) = mc_replaced c"
  by (simp_all add: SpaceMetadataCache_updateTimestamp_def split: option.splits)

lemma finish_other_objects:
  "k \<noteq> n \<Longrightarrow> mc_stored (snd (fetchSpaceMetadata_finish now n stale reply c)) k = mc_stored c k"
  "k \<noteq> n \<Longrightarrow> mc_replaced (snd (fetchSpaceMetadata_finish now n stale reply c)) k = mc_replaced c k"
  by (cases rule: finish_cases [of now n stale reply]; simp)+

lemma updateTimestamp_entry:
  "mc_cache (SpaceMetadataCache_updateTimestamp now n c) n
     = map_option (\<lambda>e. e\<lparr>m_fetchedAt := now\<rparr>) (mc_cache c n)"
  by (simp add: SpaceMetadataCache_updateTimestamp_def split: option.splits)

lemma stale_object_cong:
  assumes "mc_cache c' n = mc_cache c n" and "mc_stored c' n = mc_stored c n"
    and "mc_replaced c' n = mc_replaced c n"
  shows "stale_object n ref (SpaceMetadataCache_updateTimestamp now n c')
       = stale_object n ref (SpaceMetadataCache_updateTimestamp now n c)"
  using assms by (simp add: stale_object_def SpaceMetadataCache_object_def updateTimestamp_entry)

lemma stale_object_entry:
  "mc_cache c n = Some e \<Longrightarrow>
   stale_object n (mc_stored c n, e') (SpaceMetadataCache_updateTimestamp now n c)
     = e\<lparr>m_fetchedAt := now\<rparr>"
  by (simp add: stale_object_def SpaceMetadataCache_object_def updateTimestamp_entry)

lemma finish_result_cong:
  assumes "mc_cache c' n = mc_cache c n" and "mc_stored c' n = mc_stored c n"
    and "mc_replaced c' n = mc_replaced c n"
  shows "fst (fetchSpaceMetadata_finish now n stale reply c')
       = fst (fetchSpaceMetadata_finish now n stale reply c)"
  by (cases rule: finish_cases [of now n stale reply])
     (simp_all add: stale_object_cong [OF assms])

text \<open>Without a stale entry the second half does not look at the cache.\<close>

lemma finish_result_no_stale:
  "fst (fetchSpaceMetadata_finish now n None reply c)
     = fst (fetchSpaceMetadata_finish now n None reply c')"
  by (cases rule: finish_cases [of now n None reply]) simp_all

text \<open>A reply other than a revalidation is handled in the same way with and
  without a stale entry.\<close>

lemma finish_not_revalidated:
  "\<not> (status = 304 \<and> stale \<noteq> None) \<Longrightarrow>
   fetchSpaceMetadata_finish now n stale (Response status h b) c
     = fetchSpaceMetadata_finish now n None (Response status h b) c"
  "fetchSpaceMetadata_finish now n stale FetchRejects c
     = fetchSpaceMetadata_finish now n None FetchRejects c"
  by (cases stale; simp add: fetchSpaceMetadata_finish_def)+

lemma finish_revalidated:
  "fetchSpaceMetadata_finish now n (Some ref) (Response 304 h b) c
     = (MetadataSuccess (stale_object n ref (SpaceMetadataCache_updateTimestamp now n c)) True,
        SpaceMetadataCache_updateTimestamp now n c)"
  by (simp add: fetchSpaceMetadata_finish_def Let_def)

lemma updateTimestamp_dom [simp]:
  "dom (mc_cache (SpaceMetadataCache_updateTimestamp now n c)) = dom (mc_cache c)"
  by (auto simp: SpaceMetadataCache_updateTimestamp_def split: option.splits)

text \<open>
  C5.  A space is cached with the ETag \<open>X\<close>, its entry has expired at the
  time of the lookup (with a positive TTL), and the clock does not go back
  between the lookup and the handling of the reply.  Then the fetch sends
  \<^verbatim>\<open>If-None-Match: X\<close>, and when the reply is \<^verbatim>\<open>304\<close> the
  size of the cache is unchanged, the entry is what it was except for
  \<open>fetchedAt\<close>, which is the time of the reply and strictly later than
  before, and the counter of ETag revalidations has gone up by exactly one.
  The fetch returns the entry, which is the object it has just written into:
  the metadata it returns has the new \<open>fetchedAt\<close>.
\<close>

theorem etag_revalidation:
  assumes entry: "mc_cache c spaceName = Some e"
    and etag: "m_etag e = Some X" and nonempty: "X \<noteq> []"
    and ttl: "0 < SPACE_METADATA_TTL cfg"
    and expired: "m_fetchedAt e + SPACE_METADATA_TTL cfg \<le> io_lookup_time io"
    and clock: "io_lookup_time io \<le> io_reply_time io"
    and reply: "io_reply io (metadata_request spaceName hfToken (Some X)) = Response 304 h b"
  shows "fst (fetchSpaceMetadata_start cfg (io_lookup_time io) spaceName hfToken c)
           = MetadataPending (Some (mc_stored c spaceName, e))
               (metadata_request spaceName hfToken (Some X))
    \<and> (js ''If-None-Match'', X) \<in> set (req_headers (metadata_request spaceName hfToken (Some X)))
    \<and> fst (fetchSpaceMetadata cfg io spaceName hfToken c)
        = MetadataSuccess (e\<lparr>m_fetchedAt := io_reply_time io\<rparr>) True
    \<and> SpaceMetadataCache_size (snd (fetchSpaceMetadata cfg io spaceName hfToken c))
        = SpaceMetadataCache_size c
    \<and> mc_cache (snd (fetchSpaceMetadata cfg io spaceName hfToken c))
        = (mc_cache c)(spaceName \<mapsto> e\<lparr>m_fetchedAt := io_reply_time io\<rparr>)
    \<and> m_fetchedAt e < io_reply_time io
    \<and> mc_etagRevalidations (snd (fetchSpaceMetadata cfg io spaceName hfToken c))
        = mc_etagRevalidations c + 1"
proof -
  let ?req = "metadata_request spaceName hfToken (Some X)"
  obtain started c1 where
    sc: "fetchSpaceMetadata_start cfg (io_lookup_time io) spaceName hfToken c = (started, c1)"
    by (cases "fetchSpaceMetadata_start cfg (io_lookup_time io) spaceName hfToken c")
  have "started = fst (fetchSpaceMetadata_start cfg (io_lookup_time io) spaceName hfToken c)"
    by (simp add: sc)
  then have started: "started = MetadataPending (Some (mc_stored c spaceName, e)) ?req"
    using entry etag expired by (simp add: start_result)
  have "c1 = snd (fetchSpaceMetadata_start cfg (io_lookup_time io) spaceName hfToken c)"
    by (simp add: sc)
  then have c1: "mc_cache c1 = mc_cache c" "mc_etagRevalidations c1 = mc_etagRevalidations c"
    "mc_stored c1 = mc_stored c"
    by simp_all
  have s: "fst (fetchSpaceMetadata_start cfg (io_lookup_time io) spaceName hfToken c)
           = MetadataPending (Some (mc_stored c spaceName, e)) ?req"
    by (simp add: sc started)
  have hdr: "(js ''If-None-Match'', X) \<in> set (req_headers ?req)"
    using nonempty by (simp add: metadata_request_def)
  have "stale_object spaceName (mc_stored c1 spaceName, e)
          (SpaceMetadataCache_updateTimestamp (io_reply_time io) spaceName c1)
        = e\<lparr>m_fetchedAt := io_reply_time io\<rparr>"
    using entry c1 by (intro stale_object_entry) simp
  then have whole: "fetchSpaceMetadata cfg io spaceName hfToken c
      = (MetadataSuccess (e\<lparr>m_fetchedAt := io_reply_time io\<rparr>) True,
         SpaceMetadataCache_updateTimestamp (io_reply_time io) spaceName c1)"
    using reply c1
    by (simp add: fetchSpaceMetadata_def sc started metadata_resume_def finish_revalidated)
  have upd: "mc_cache (SpaceMetadataCache_updateTimestamp (io_reply_time io) spaceName c1)
        = (mc_cache c)(spaceName \<mapsto> e\<lparr>m_fetchedAt := io_reply_time io\<rparr>)"
    using entry c1 by (simp add: SpaceMetadataCache_updateTimestamp_def)
  have cnt: "mc_etagRevalidations (SpaceMetadataCache_updateTimestamp (io_reply_time io) spaceName c1)
        = mc_etagRevalidations c + 1"
    using entry c1 by (simp add: SpaceMetadataCache_updateTimestamp_def)
  have sz: "SpaceMetadataCache_size (SpaceMetadataCache_updateTimestamp (io_reply_time io) spaceName c1)
        = SpaceMetadataCache_size c"
    using c1 by (simp add: SpaceMetadataCache_size_def)
  have strict: "m_fetchedAt e < io_reply_time io"
    using ttl expired clock by linarith
  show ?thesis
    using s hdr strict by (simp add: whole upd cnt sz)
qed

theorem etag_revalidation_witness:
  "mc_cache warm_cache (js ''a/x'') = Some cached_entry
   \<and> m_etag cached_entry = Some (js ''W1'')
   \<and> 0 < SPACE_METADATA_TTL default_config
   \<and> m_fetchedAt cached_entry + SPACE_METADATA_TTL default_config \<le> io_lookup_time not_modified_io
   \<and> io_lookup_time not_modified_io \<le> io_reply_time not_modified_io
   \<and> fst (fetchSpaceMetadata default_config not_modified_io (js ''a/x'') None warm_cache)
       = MetadataSuccess (cached_entry\<lparr>m_fetchedAt := 400050\<rparr>) True
   \<and> mc_cache (snd (fetchSpaceMetadata default_config not_modified_io (js ''a/x'') None warm_cache)) (js ''a/x'')
       = Some (cached_entry\<lparr>m_fetchedAt := 400050\<rparr>)
   \<and> mc_etagRevalidations (snd (fetchSpaceMetadata default_config not_modified_io (js ''a/x'') None warm_cache))
       = mc_etagRevalidations warm_cache + 1"
proof -
  have 1: "mc_cache warm_cache (js ''a/x'') = Some cached_entry"
    by (simp add: warm_cache_def SpaceMetadataCache_set_def)
  have 2: "m_etag cached_entry = Some (js ''W1'')" and 3: "js ''W1'' \<noteq> []"
    by (simp_all add: cached_entry_def)
  have 4: "0 < SPACE_METADATA_TTL default_config"
    by (simp add: default_config_def)
  have 5: "m_fetchedAt cached_entry + SPACE_METADATA_TTL default_config \<le> io_lookup_time not_modified_io"
    by (simp add: cached_entry_def default_config_def not_modified_io_def)
  have 6: "io_lookup_time not_modified_io \<le> io_reply_time not_modified_io"
    by (simp add: not_modified_io_def)
  have 7: "io_reply not_modified_io (metadata_request (js ''a/x'') None (Some (js ''W1''))) = Response 304 None None"
    by (simp add: not_modified_io_def)
  have 8: "io_reply_time not_modified_io = 400050"
    by (simp add: not_modified_io_def)
  from etag_revalidation [OF 1 2 3 4 5 6 7] 1 2 4 5 6 show ?thesis
    by (simp add: 8)
qed

subsection \<open>One metadata fetch\<close>

lemma start_result_cong:
  "mc_cache c' n = mc_cache c n \<Longrightarrow> mc_stored c' n = mc_stored c n \<Longrightarrow>
   fst (fetchSpaceMetadata_start cfg t n tok c') = fst (fetchSpaceMetadata_start cfg t n tok c)"
  by (auto simp: start_result split: option.splits)

lemma start_all_public [simp]:
  "all_public (snd (fetchSpaceMetadata_start cfg t n tok c)) = all_public c"
  by (simp add: all_public_def)

lemma start_keyed [simp]:
  "keyed_by_name (snd (fetchSpaceMetadata_start cfg t n tok c)) = keyed_by_name c"
  by (simp add: keyed_by_name_def)

lemma resume_other_keys:
  "k \<noteq> n \<Longrightarrow> mc_cache (snd (metadata_resume io n started c)) k = mc_cache c k"
  by (cases started) (simp_all add: metadata_resume_def finish_other_keys)

lemma resume_all_public:
  "all_public c \<Longrightarrow> all_public (snd (metadata_resume io n started c))"
  by (cases started) (simp_all add: metadata_resume_def finish_all_public)

lemma resume_keyed:
  "keyed_by_name c \<Longrightarrow> keyed_by_name (snd (metadata_resume io n started c))"
  by (cases started) (simp_all add: metadata_resume_def finish_keyed_by_name)

lemma resume_other_objects:
  "k \<noteq> n \<Longrightarrow> mc_stored (snd (metadata_resume io n started c)) k = mc_stored c k"
  "k \<noteq> n \<Longrightarrow> mc_replaced (snd (metadata_resume io n started c)) k = mc_replaced c k"
  by (cases started; simp add: metadata_resume_def finish_other_objects)+

lemma resume_result_cong:
  assumes "mc_cache c' n = mc_cache c n" and "mc_stored c' n = mc_stored c n"
    and "mc_replaced c' n = mc_replaced c n"
  shows "fst (metadata_resume io n started c') = fst (metadata_resume io n started c)"
  by (cases started) (simp_all add: metadata_resume_def finish_result_cong [OF assms])

lemma fetchSpaceMetadata_state:
  "snd (fetchSpaceMetadata cfg io n tok c)
     = snd (metadata_resume io n (fst (fetchSpaceMetadata_start cfg (io_lookup_time io) n tok c))
              (snd (fetchSpaceMetadata_start cfg (io_lookup_time io) n tok c)))"
  by (simp add: fetchSpaceMetadata_def split: prod.splits)

text \<open>The result of one whole fetch is the result of its second half in any
  cache that has the same objects under the name.\<close>

lemma fetchSpaceMetadata_result:
  assumes "mc_cache c' n = mc_cache c n" and "mc_stored c' n = mc_stored c n"
    and "mc_replaced c' n = mc_replaced c n"
  shows "fst (fetchSpaceMetadata cfg io n tok c)
     = fst (metadata_resume io n (fst (fetchSpaceMetadata_start cfg (io_lookup_time io) n tok c)) c')"
proof -
  let ?s = "fetchSpaceMetadata_start cfg (io_lookup_time io) n tok c"
  have "fst (fetchSpaceMetadata cfg io n tok c) = fst (metadata_resume io n (fst ?s) (snd ?s))"
    by (simp add: fetchSpaceMetadata_def case_prod_beta)
  also have "\<dots> = fst (metadata_resume io n (fst ?s) c')"
    by (rule resume_result_cong) (simp_all add: assms)
  finally show ?thesis .
qed

text \<open>The result of one whole fetch, as a function of the entry of the name
  in the cache it starts from.\<close>

lemma fetchSpaceMetadata_explicit:
  "fst (fetchSpaceMetadata cfg io n tok c) =
     (case mc_cache c n of
        None \<Rightarrow>
          fst (fetchSpaceMetadata_finish (io_reply_time io) n None
                 (io_reply io (metadata_request n tok None)) c0)
      | Some e \<Rightarrow>
          if io_lookup_time io < m_fetchedAt e + SPACE_METADATA_TTL cfg
          then MetadataSuccess e True
          else
            (case io_reply io (metadata_request n tok (m_etag e)) of
               FetchRejects \<Rightarrow>
                 fst (fetchSpaceMetadata_finish (io_reply_time io) n None FetchRejects c0)
             | Response status h b \<Rightarrow>
                 if status = 304
                 then MetadataSuccess (e\<lparr>m_fetchedAt := io_reply_time io\<rparr>) True
                 else fst (fetchSpaceMetadata_finish (io_reply_time io) n None
                             (Response status h b) c0)))"
proof -
  let ?s = "fetchSpaceMetadata_start cfg (io_lookup_time io) n tok c"
  have whole: "fst (fetchSpaceMetadata cfg io n tok c) = fst (metadata_resume io n (fst ?s) (snd ?s))"
    by (simp add: fetchSpaceMetadata_def case_prod_beta)
  show ?thesis
  proof (cases "mc_cache c n")
    case None
    then have "fst ?s = MetadataPending None (metadata_request n tok None)"
      by (simp add: start_result)
    with None show ?thesis
      by (simp add: whole metadata_resume_def finish_result_no_stale [of _ _ _ "snd ?s" c0])
  next
    case (Some e)
    show ?thesis
    proof (cases "io_lookup_time io < m_fetchedAt e + SPACE_METADATA_TTL cfg")
      case True
      with Some have "fst ?s = MetadataCached e" by (simp add: start_result)
      with Some True show ?thesis by (simp add: whole metadata_resume_def)
    next
      case False
      let ?ref = "(mc_stored c n, e)"
      let ?reply = "io_reply io (metadata_request n tok (m_etag e))"
      from Some False have st: "fst ?s = MetadataPending (Some ?ref) (metadata_request n tok (m_etag e))"
        by (simp add: start_result)
      then have res: "fst (fetchSpaceMetadata cfg io n tok c)
          = fst (fetchSpaceMetadata_finish (io_reply_time io) n (Some ?ref) ?reply (snd ?s))"
        by (simp add: whole metadata_resume_def)
      show ?thesis
      proof (cases ?reply)
        case FetchRejects
        with Some False show ?thesis
          by (simp add: res finish_not_revalidated(2) [of _ _ "Some ?ref"]
                finish_result_no_stale [of _ _ _ "snd ?s" c0])
      next
        case (Response status h b)
        show ?thesis
        proof (cases "status = 304")
          case True
          have "stale_object n (mc_stored (snd ?s) n, e)
                  (SpaceMetadataCache_updateTimestamp (io_reply_time io) n (snd ?s))
                = e\<lparr>m_fetchedAt := io_reply_time io\<rparr>"
            using Some by (intro stale_object_entry) simp
          with Some False Response True show ?thesis
            by (simp add: res finish_revalidated)
        next
          case no: False
          then have "fetchSpaceMetadata_finish (io_reply_time io) n (Some ?ref) (Response status h b) (snd ?s)
              = fetchSpaceMetadata_finish (io_reply_time io) n None (Response status h b) (snd ?s)"
            by (intro finish_not_revalidated(1)) simp
          with Some False Response no show ?thesis
            by (simp add: res finish_result_no_stale [of _ _ _ "snd ?s" c0])
        qed
      qed
    qed
  qed
qed

lemma fetchSpaceMetadata_result_cong:
  "mc_cache c' n = mc_cache c n \<Longrightarrow>
   fst (fetchSpaceMetadata cfg io n tok c') = fst (fetchSpaceMetadata cfg io n tok c)"
  by (simp add: fetchSpaceMetadata_explicit [of _ _ _ _ _ c])

lemma fetchSpaceMetadata_all_public:
  "all_public c \<Longrightarrow> all_public (snd (fetchSpaceMetadata cfg io n tok c))"
  by (simp add: fetchSpaceMetadata_state resume_all_public)

text \<open>What a fetch without a stale entry returns is new metadata.\<close>

lemma finish_no_stale_success:
  assumes "fst (fetchSpaceMetadata_finish now n None reply c) = MetadataSuccess md cached"
  shows "m_name md = n" and "\<not> cached"
    and "m_private md \<Longrightarrow> snd (fetchSpaceMetadata_finish now n None reply c') = c'"
  using assms by (cases rule: finish_cases [of now n None reply]; simp)+

lemma fetchSpaceMetadata_success_name:
  assumes "keyed_by_name c" and "fst (fetchSpaceMetadata cfg io n tok c) = MetadataSuccess md cached"
  shows "m_name md = n"
proof (cases "mc_cache c n")
  case None
  with assms(2) show ?thesis
    by (auto simp: fetchSpaceMetadata_explicit [of _ _ _ _ _ c] dest: finish_no_stale_success(1))
next
  case (Some e)
  with assms(1) have "m_name e = n" by (simp add: keyed_by_name_def)
  with assms(2) Some show ?thesis
    by (auto simp: fetchSpaceMetadata_explicit [of _ _ _ _ _ c]
          dest: finish_no_stale_success(1) split: if_splits http_reply.splits)
qed

text \<open>A fetch that returns private metadata leaves the entries as they are,
  when the cache holds public entries only.\<close>

lemma fetchSpaceMetadata_private:
  assumes pub: "all_public c"
    and res: "fst (fetchSpaceMetadata cfg io n tok c) = MetadataSuccess md cached"
    and priv: "m_private md"
  shows "mc_cache (snd (fetchSpaceMetadata cfg io n tok c)) = mc_cache c" and "\<not> cached"
proof -
  let ?s = "fetchSpaceMetadata_start cfg (io_lookup_time io) n tok c"
  let ?now = "io_reply_time io"
  have fresh: "mc_cache (snd (fetchSpaceMetadata cfg io n tok c)) = mc_cache c \<and> \<not> cached"
    if st: "fst ?s = MetadataPending stale request"
      and same: "fetchSpaceMetadata_finish ?now n stale (io_reply io request) (snd ?s)
                   = fetchSpaceMetadata_finish ?now n None (io_reply io request) (snd ?s)"
      and r: "fst (fetchSpaceMetadata_finish ?now n None (io_reply io request) c)
                   = MetadataSuccess md cached"
    for stale request
  proof -
    from r priv have "snd (fetchSpaceMetadata_finish ?now n None (io_reply io request) (snd ?s)) = snd ?s"
      by (rule finish_no_stale_success(3))
    with st same have "snd (fetchSpaceMetadata cfg io n tok c) = snd ?s"
      by (simp add: fetchSpaceMetadata_state metadata_resume_def)
    moreover from r have "\<not> cached" by (rule finish_no_stale_success(2))
    ultimately show ?thesis by simp
  qed
  have both: "mc_cache (snd (fetchSpaceMetadata cfg io n tok c)) = mc_cache c \<and> \<not> cached"
  proof (cases "mc_cache c n")
    case None
    then have st: "fst ?s = MetadataPending None (metadata_request n tok None)"
      by (simp add: start_result)
    from res None have "fst (fetchSpaceMetadata_finish ?now n None
          (io_reply io (metadata_request n tok None)) c) = MetadataSuccess md cached"
      by (simp add: fetchSpaceMetadata_explicit [of _ _ _ _ _ c])
    with st refl show ?thesis by (rule fresh)
  next
    case (Some e)
    with pub have pe: "\<not> m_private e" by (simp add: all_public_def)
    let ?req = "metadata_request n tok (m_etag e)"
    from res Some pe priv have exp: "\<not> io_lookup_time io < m_fetchedAt e + SPACE_METADATA_TTL cfg"
      by (auto simp: fetchSpaceMetadata_explicit [of _ _ _ _ _ c])
    with Some have st: "fst ?s = MetadataPending (Some (mc_stored c n, e)) ?req"
      by (simp add: start_result)
    show ?thesis
    proof (cases "io_reply io ?req")
      case FetchRejects
      with res Some exp have r: "fst (fetchSpaceMetadata_finish ?now n None (io_reply io ?req) c)
            = MetadataSuccess md cached"
        by (simp add: fetchSpaceMetadata_explicit [of _ _ _ _ _ c])
      have same: "fetchSpaceMetadata_finish ?now n (Some (mc_stored c n, e)) (io_reply io ?req) (snd ?s)
            = fetchSpaceMetadata_finish ?now n None (io_reply io ?req) (snd ?s)"
        unfolding FetchRejects by (rule finish_not_revalidated(2))
      from st same r show ?thesis by (rule fresh)
    next
      case (Response status h b)
      with res Some exp pe priv have no: "status \<noteq> 304"
        by (auto simp: fetchSpaceMetadata_explicit [of _ _ _ _ _ c])
      with res Some exp Response
      have r: "fst (fetchSpaceMetadata_finish ?now n None (io_reply io ?req) c)
            = MetadataSuccess md cached"
        by (simp add: fetchSpaceMetadata_explicit [of _ _ _ _ _ c])
      have same: "fetchSpaceMetadata_finish ?now n (Some (mc_stored c n, e)) (io_reply io ?req) (snd ?s)
            = fetchSpaceMetadata_finish ?now n None (io_reply io ?req) (snd ?s)"
        unfolding Response using no by (intro finish_not_revalidated(1)) simp
      from st same r show ?thesis by (rule fresh)
    qed
  qed
  from both show "mc_cache (snd (fetchSpaceMetadata cfg io n tok c)) = mc_cache c" and "\<not> cached"
    by simp_all
qed

subsection \<open>A batch of metadata fetches\<close>

lemma start_all_entries [simp]:
  "mc_cache (snd (metadata_start_all cfg env tok ns c)) = mc_cache c"
proof (induction ns arbitrary: c)
  case Nil
  then show ?case by simp
next
  case (Cons n ns)
  obtain started c1 where s: "fetchSpaceMetadata_start cfg (io_lookup_time (env n)) n tok c = (started, c1)"
    by (cases "fetchSpaceMetadata_start cfg (io_lookup_time (env n)) n tok c")
  then have "c1 = snd (fetchSpaceMetadata_start cfg (io_lookup_time (env n)) n tok c)" by simp
  then have c1: "mc_cache c1 = mc_cache c" by simp
  show ?case
    using Cons [of c1] c1 by (simp add: s case_prod_beta)
qed

lemma start_all_objects [simp]:
  "mc_stored (snd (metadata_start_all cfg env tok ns c)) = mc_stored c"
  "mc_replaced (snd (metadata_start_all cfg env tok ns c)) = mc_replaced c"
  by (induction ns arbitrary: c; simp add: case_prod_beta)+

lemma start_all_result:
  "fst (metadata_start_all cfg env tok ns c)
     = map (\<lambda>n. (n, fst (fetchSpaceMetadata_start cfg (io_lookup_time (env n)) n tok c))) ns"
proof (induction ns arbitrary: c)
  case Nil
  then show ?case by simp
next
  case (Cons n ns)
  obtain started c1 where s: "fetchSpaceMetadata_start cfg (io_lookup_time (env n)) n tok c = (started, c1)"
    by (cases "fetchSpaceMetadata_start cfg (io_lookup_time (env n)) n tok c")
  then have "c1 = snd (fetchSpaceMetadata_start cfg (io_lookup_time (env n)) n tok c)" by simp
  then have c1: "mc_cache c1 = mc_cache c" "mc_stored c1 = mc_stored c" by simp_all
  have same: "fst (fetchSpaceMetadata_start cfg (io_lookup_time (env m)) m tok c1)
      = fst (fetchSpaceMetadata_start cfg (io_lookup_time (env m)) m tok c)" for m
    using c1 by (intro start_result_cong) simp_all
  show ?case
    using Cons [of c1] by (simp add: s same case_prod_beta)
qed

lemma resume_all_result:
  assumes "distinct (map fst ps)"
  shows "fst (metadata_resume_all env ps c)
     = map (\<lambda>(n, started). fst (metadata_resume (env n) n started c)) ps"
  using assms
proof (induction ps arbitrary: c)
  case Nil
  then show ?case by simp
next
  case (Cons p ps)
  obtain n started where p: "p = (n, started)" by (cases p)
  let ?c1 = "snd (metadata_resume (env n) n started c)"
  from Cons.prems p have d: "distinct (map fst ps)" and fresh: "n \<notin> fst ` set ps" by auto
  have "fst (metadata_resume_all env ps ?c1)
      = map (\<lambda>(m, started). fst (metadata_resume (env m) m started ?c1)) ps"
    using d by (rule Cons.IH)
  also have "\<dots> = map (\<lambda>(m, started). fst (metadata_resume (env m) m started c)) ps"
  proof (rule map_cong [OF refl])
    fix q assume q: "q \<in> set ps"
    obtain m st where qm: "q = (m, st)" by (cases q)
    with q fresh have "m \<noteq> n" by force
    then have "fst (metadata_resume (env m) m st ?c1) = fst (metadata_resume (env m) m st c)"
      by (intro resume_result_cong) (simp_all add: resume_other_keys resume_other_objects)
    then show "(case q of (m, started) \<Rightarrow> fst (metadata_resume (env m) m started ?c1))
        = (case q of (m, started) \<Rightarrow> fst (metadata_resume (env m) m started c))"
      by (simp add: qm)
  qed
  finally show ?case
    by (simp add: p case_prod_beta)
qed

lemma resume_all_state:
  "(all_public c \<longrightarrow> all_public (snd (metadata_resume_all env ps c)))
   \<and> (keyed_by_name c \<longrightarrow> keyed_by_name (snd (metadata_resume_all env ps c)))
   \<and> (\<forall>k. k \<notin> fst ` set ps \<longrightarrow> mc_cache (snd (metadata_resume_all env ps c)) k = mc_cache c k)"
proof (induction ps arbitrary: c)
  case Nil
  then show ?case by simp
next
  case (Cons p ps)
  obtain n started where p: "p = (n, started)" by (cases p)
  obtain r c1 where r: "metadata_resume (env n) n started c = (r, c1)"
    by (cases "metadata_resume (env n) n started c")
  then have c1: "c1 = snd (metadata_resume (env n) n started c)" by simp
  have 1: "all_public c \<longrightarrow> all_public c1" and 2: "keyed_by_name c \<longrightarrow> keyed_by_name c1"
    and 3: "\<forall>k. k \<noteq> n \<longrightarrow> mc_cache c1 k = mc_cache c k"
    unfolding c1 by (simp_all add: resume_all_public resume_keyed resume_other_keys)
  have st: "snd (metadata_resume_all env (p # ps) c) = snd (metadata_resume_all env ps c1)"
    by (simp add: p r case_prod_beta)
  show ?case
    unfolding st using Cons [of c1] 1 2 3 by (auto simp: p)
qed

text \<open>One batch: the results are those of the single fetches from the cache
  at the start of the batch; the entries of other names stay.\<close>

lemma fetch_batch_result:
  assumes "distinct batch"
  shows "fst (fetch_batch cfg env tok batch c)
     = map (\<lambda>n. fst (fetchSpaceMetadata cfg (env n) n tok c)) batch"
proof -
  obtain started c1 where s: "metadata_start_all cfg env tok batch c = (started, c1)"
    by (cases "metadata_start_all cfg env tok batch c")
  then have st: "started = fst (metadata_start_all cfg env tok batch c)"
    and c1: "c1 = snd (metadata_start_all cfg env tok batch c)" by simp_all
  have d: "distinct (map fst started)"
    using assms by (simp add: st start_all_result o_def)
  have "fst (fetch_batch cfg env tok batch c)
      = map (\<lambda>(n, started). fst (metadata_resume (env n) n started c1)) started"
    by (simp add: fetch_batch_def s resume_all_result [OF d])
  also have "\<dots> = map (\<lambda>n. fst (metadata_resume (env n) n
        (fst (fetchSpaceMetadata_start cfg (io_lookup_time (env n)) n tok c)) c1)) batch"
    by (simp add: st start_all_result o_def)
  also have "\<dots> = map (\<lambda>n. fst (fetchSpaceMetadata cfg (env n) n tok c)) batch"
    by (rule map_cong [OF refl], rule fetchSpaceMetadata_result [symmetric]) (simp_all add: c1)
  finally show ?thesis .
qed

lemma fetch_batch_state:
  "(all_public c \<longrightarrow> all_public (snd (fetch_batch cfg env tok batch c)))
   \<and> (keyed_by_name c \<longrightarrow> keyed_by_name (snd (fetch_batch cfg env tok batch c)))
   \<and> (\<forall>k. k \<notin> set batch \<longrightarrow> mc_cache (snd (fetch_batch cfg env tok batch c)) k = mc_cache c k)"
proof -
  obtain started c1 where s: "metadata_start_all cfg env tok batch c = (started, c1)"
    by (cases "metadata_start_all cfg env tok batch c")
  then have st: "started = fst (metadata_start_all cfg env tok batch c)"
    and c1: "c1 = snd (metadata_start_all cfg env tok batch c)" by simp_all
  have keys: "fst ` set started = set batch"
    by (simp add: st start_all_result image_image)
  have e: "mc_cache c1 = mc_cache c" by (simp add: c1)
  then have p: "all_public c1 = all_public c" and k: "keyed_by_name c1 = keyed_by_name c"
    by (simp_all add: all_public_def keyed_by_name_def)
  show ?thesis
    using resume_all_state [of c1 env started] by (simp add: fetch_batch_def s keys e p k)
qed

lemma fetch_batches_Cons:
  "fetch_batches cfg env tok (batch # batches) results c
     = fetch_batches cfg env tok batches
         (store_metadata (fst (fetch_batch cfg env tok batch c)) results)
         (snd (fetch_batch cfg env tok batch c))"
  by (simp add: fetch_batch_def case_prod_beta)

lemma store_metadata_append:
  "store_metadata (rs @ rs') acc = store_metadata rs' (store_metadata rs acc)"
  by (induction rs acc rule: store_metadata.induct) simp_all

lemma fetch_batches_state:
  "(all_public c \<longrightarrow> all_public (snd (fetch_batches cfg env tok batches results c)))
   \<and> (keyed_by_name c \<longrightarrow> keyed_by_name (snd (fetch_batches cfg env tok batches results c)))
   \<and> (\<forall>k. k \<notin> set (concat batches)
         \<longrightarrow> mc_cache (snd (fetch_batches cfg env tok batches results c)) k = mc_cache c k)"
proof (induction batches arbitrary: results c)
  case Nil
  then show ?case by simp
next
  case (Cons batch batches)
  show ?case
    unfolding fetch_batches_Cons
    using Cons [of "snd (fetch_batch cfg env tok batch c)"
                   "store_metadata (fst (fetch_batch cfg env tok batch c)) results"]
      fetch_batch_state [of c cfg env tok batch]
    by auto
qed

lemma fetch_batches_result:
  assumes "distinct (concat batches)"
  shows "fst (fetch_batches cfg env tok batches results c)
     = store_metadata (map (\<lambda>n. fst (fetchSpaceMetadata cfg (env n) n tok c)) (concat batches)) results"
  using assms
proof (induction batches arbitrary: results c)
  case Nil
  then show ?case by simp
next
  case (Cons batch batches)
  let ?c' = "snd (fetch_batch cfg env tok batch c)"
  from Cons.prems have d: "distinct (concat batches)" and disj: "set batch \<inter> set (concat batches) = {}"
    by auto
  have same: "fst (fetchSpaceMetadata cfg (env n) n tok ?c') = fst (fetchSpaceMetadata cfg (env n) n tok c)"
    if "n \<in> set (concat batches)" for n
  proof -
    from that disj have "n \<notin> set batch" by auto
    then have "mc_cache ?c' n = mc_cache c n"
      using fetch_batch_state [of c cfg env tok batch] by simp
    then show ?thesis by (rule fetchSpaceMetadata_result_cong)
  qed
  have "fst (fetch_batches cfg env tok (batch # batches) results c)
      = store_metadata (map (\<lambda>n. fst (fetchSpaceMetadata cfg (env n) n tok ?c')) (concat batches))
          (store_metadata (fst (fetch_batch cfg env tok batch c)) results)"
    unfolding fetch_batches_Cons by (rule Cons.IH [OF d])
  also have "map (\<lambda>n. fst (fetchSpaceMetadata cfg (env n) n tok ?c')) (concat batches)
      = map (\<lambda>n. fst (fetchSpaceMetadata cfg (env n) n tok c)) (concat batches)"
    using same by (intro map_cong) simp_all
  finally show ?case
    using Cons.prems by (simp add: fetch_batch_result store_metadata_append)
qed

lemma concat_batches_of: "0 < n \<Longrightarrow> concat (batches_of n xs) = xs"
proof (induction n xs rule: batches_of.induct)
  case (1 n xs)
  show ?case
  proof (cases "xs = []")
    case True
    then show ?thesis by (simp add: batches_of.simps [of n "[]"])
  next
    case False
    with 1 show ?thesis by (simp add: batches_of.simps [of n xs])
  qed
qed

subsection \<open>Schema fetches\<close>

lemma schema_finish_cases:
  obtains
    (failure) err where
      "\<And>c. fetchSchema_finish lc now md reply c = (SchemaFailure (m_name md) err, c)"
  | (stored) schema where "\<not> m_private md"
      "\<And>c. fetchSchema_finish lc now md reply c
         = (SchemaSuccess (m_name md) schema False, SchemaCache_set (m_name md) schema c)"
  | (not_stored) schema where "m_private md"
      "\<And>c. fetchSchema_finish lc now md reply c = (SchemaSuccess (m_name md) schema False, c)"
proof (cases reply)
  case FetchRejects
  then show ?thesis by (intro failure) (simp add: fetchSchema_finish_def)
next
  case (Response status etagHeader body)
  show ?thesis
  proof (cases "response_ok status")
    case False
    with Response show ?thesis by (intro failure) (simp add: fetchSchema_finish_def)
  next
    case ok: True
    show ?thesis
    proof (cases body)
      case None
      with ok Response show ?thesis by (intro failure) (simp add: fetchSchema_finish_def)
    next
      case (Some schemaResponse)
      show ?thesis
      proof (cases "parseSchemaResponse schemaResponse")
        case (Inl e)
        with ok Response Some show ?thesis by (intro failure) (simp add: fetchSchema_finish_def)
      next
        case (Inr parsed)
        let ?kept = "filter (\<lambda>parsedTool.
              \<not> includes_str (js ''<lambda'') (toLowerCase lc (pt_name parsedTool))) parsed"
        show ?thesis
        proof (cases "convert_tools ?kept")
          case (Inl e)
          with ok Response Some Inr show ?thesis
            by (intro failure) (simp add: fetchSchema_finish_def)
        next
          case tools: (Inr tools)
          show ?thesis
          proof (cases "m_private md")
            case True
            with ok Response Some Inr tools show ?thesis
              by (intro not_stored [of "\<lparr>s_tools = tools, s_fetchedAt = now\<rparr>"])
                 (simp_all add: fetchSchema_finish_def Let_def)
          next
            case False
            with ok Response Some Inr tools show ?thesis
              by (intro stored [of "\<lparr>s_tools = tools, s_fetchedAt = now\<rparr>"])
                 (simp_all add: fetchSchema_finish_def Let_def)
          qed
        qed
      qed
    qed
  qed
qed

lemma schema_set_other_keys [simp]:
  "k \<noteq> n \<Longrightarrow> sc_cache (SchemaCache_set n schema c) k = sc_cache c k"
  by (simp add: SchemaCache_set_def)

lemma schema_finish_result_cache_free:
  "fst (fetchSchema_finish lc now md reply c) = fst (fetchSchema_finish lc now md reply c')"
  by (cases rule: schema_finish_cases [of lc now md reply]) simp_all

lemma schema_finish_other_keys:
  "k \<noteq> m_name md \<Longrightarrow> sc_cache (snd (fetchSchema_finish lc now md reply c)) k = sc_cache c k"
  by (cases rule: schema_finish_cases [of lc now md reply]) simp_all

lemma schema_finish_private:
  "m_private md \<Longrightarrow> snd (fetchSchema_finish lc now md reply c) = c"
  by (cases rule: schema_finish_cases [of lc now md reply]) simp_all

lemma schema_finish_success_name:
  "fst (fetchSchema_finish lc now md reply c) = SchemaSuccess n schema cached \<Longrightarrow> n = m_name md"
  by (cases rule: schema_finish_cases [of lc now md reply]) auto

lemma schema_start_entries [simp]:
  "sc_cache (snd (fetchSchema_start cfg t md tok c)) = sc_cache c"
proof -
  obtain r c' where g: "SchemaCache_get cfg t (m_name md) c = (r, c')"
    by (cases "SchemaCache_get cfg t (m_name md) c")
  then have "c' = snd (SchemaCache_get cfg t (m_name md) c)" by simp
  then have "sc_cache c' = sc_cache c" by simp
  then show ?thesis
    by (cases r) (simp_all add: fetchSchema_start_def g)
qed

lemma schema_start_result:
  "fst (fetchSchema_start cfg t md tok c) =
     (case sc_cache c (m_name md) of
        None \<Rightarrow> SchemaPending (schema_request md tok)
      | Some e \<Rightarrow>
          if t < s_fetchedAt e + SCHEMA_TTL cfg then SchemaCached e
          else SchemaPending (schema_request md tok))"
proof -
  obtain r c' where g: "SchemaCache_get cfg t (m_name md) c = (r, c')"
    by (cases "SchemaCache_get cfg t (m_name md) c")
  then have r: "r = fst (SchemaCache_get cfg t (m_name md) c)" by simp
  show ?thesis
    using r [unfolded SchemaCache_get_result]
    by (cases r) (auto simp: fetchSchema_start_def g split: option.splits if_splits)
qed

lemma schema_start_result_cong:
  "sc_cache c' (m_name md) = sc_cache c (m_name md) \<Longrightarrow>
   fst (fetchSchema_start cfg t md tok c') = fst (fetchSchema_start cfg t md tok c)"
  by (simp add: schema_start_result)

lemma schema_resume_result_cache_free:
  "fst (schema_resume lc io md started c) = fst (schema_resume lc io md started c')"
  by (cases started)
     (simp_all add: schema_resume_def schema_finish_result_cache_free [of _ _ _ _ c c'])

lemma schema_resume_other_keys:
  "k \<noteq> m_name md \<Longrightarrow> sc_cache (snd (schema_resume lc io md started c)) k = sc_cache c k"
  by (cases started) (simp_all add: schema_resume_def schema_finish_other_keys)

lemma schema_resume_private:
  "m_private md \<Longrightarrow> snd (schema_resume lc io md started c) = c"
  by (cases started) (simp_all add: schema_resume_def schema_finish_private)

lemma schema_resume_success_name:
  "fst (schema_resume lc io md started c) = SchemaSuccess n schema cached \<Longrightarrow> n = m_name md"
  by (cases started) (auto simp: schema_resume_def dest: schema_finish_success_name)

lemma fetchSchema_result:
  "fst (fetchSchema lc cfg io md tok c)
     = fst (schema_resume lc io md (fst (fetchSchema_start cfg (sio_lookup_time io) md tok c)) c')"
proof -
  obtain started c1 where sc: "fetchSchema_start cfg (sio_lookup_time io) md tok c = (started, c1)"
    by (cases "fetchSchema_start cfg (sio_lookup_time io) md tok c")
  show ?thesis
    by (simp add: fetchSchema_def sc schema_resume_result_cache_free [of _ _ _ _ c1 c'])
qed

lemma fetchSchema_state:
  "snd (fetchSchema lc cfg io md tok c)
     = snd (schema_resume lc io md (fst (fetchSchema_start cfg (sio_lookup_time io) md tok c))
              (snd (fetchSchema_start cfg (sio_lookup_time io) md tok c)))"
  by (simp add: fetchSchema_def case_prod_beta)

lemma fetchSchema_result_cong:
  assumes "sc_cache c' (m_name md) = sc_cache c (m_name md)"
  shows "fst (fetchSchema lc cfg io md tok c') = fst (fetchSchema lc cfg io md tok c)"
proof -
  have "fst (fetchSchema lc cfg io md tok c')
      = fst (schema_resume lc io md (fst (fetchSchema_start cfg (sio_lookup_time io) md tok c')) c)"
    by (rule fetchSchema_result)
  also have "fst (fetchSchema_start cfg (sio_lookup_time io) md tok c')
      = fst (fetchSchema_start cfg (sio_lookup_time io) md tok c)"
    using assms by (rule schema_start_result_cong)
  also have "fst (schema_resume lc io md (fst (fetchSchema_start cfg (sio_lookup_time io) md tok c)) c)
      = fst (fetchSchema lc cfg io md tok c)"
    by (rule fetchSchema_result [symmetric])
  finally show ?thesis .
qed

lemma fetchSchema_success_name:
  "fst (fetchSchema lc cfg io md tok c) = SchemaSuccess n schema cached \<Longrightarrow> n = m_name md"
  by (simp add: fetchSchema_result [of _ _ _ _ _ c c] schema_resume_success_name)

lemma fetchSchema_private:
  "m_private md \<Longrightarrow> sc_cache (snd (fetchSchema lc cfg io md tok c)) = sc_cache c"
  by (simp add: fetchSchema_state schema_resume_private)

lemma fetchSchema_other_keys:
  "k \<noteq> m_name md \<Longrightarrow> sc_cache (snd (fetchSchema lc cfg io md tok c)) k = sc_cache c k"
  by (simp add: fetchSchema_state schema_resume_other_keys)

subsection \<open>All schema fetches of a run\<close>

lemma schema_start_all_entries [simp]:
  "sc_cache (snd (schema_start_all cfg env tok mds c)) = sc_cache c"
proof (induction mds arbitrary: c)
  case Nil
  then show ?case by simp
next
  case (Cons md mds)
  let ?s = "fetchSchema_start cfg (sio_lookup_time (env (m_name md))) md tok c"
  have "sc_cache (snd ?s) = sc_cache c" by simp
  with Cons [of "snd ?s"] show ?case by (simp add: case_prod_beta)
qed

lemma schema_start_all_result:
  "fst (schema_start_all cfg env tok mds c)
     = map (\<lambda>md. (md, fst (fetchSchema_start cfg (sio_lookup_time (env (m_name md))) md tok c))) mds"
proof (induction mds arbitrary: c)
  case Nil
  then show ?case by simp
next
  case (Cons md mds)
  let ?s = "fetchSchema_start cfg (sio_lookup_time (env (m_name md))) md tok c"
  have same: "fst (fetchSchema_start cfg t m tok (snd ?s)) = fst (fetchSchema_start cfg t m tok c)" for t m
    by (intro schema_start_result_cong) simp
  show ?case
    using Cons [of "snd ?s"] by (simp add: case_prod_beta same)
qed

lemma schema_resume_all_result:
  "fst (schema_resume_all lc env ps c)
     = map (\<lambda>(md, started). fst (schema_resume lc (env (m_name md)) md started c0)) ps"
proof (induction ps arbitrary: c)
  case Nil
  then show ?case by simp
next
  case (Cons p ps)
  obtain md started where p: "p = (md, started)" by (cases p)
  let ?r = "schema_resume lc (env (m_name md)) md started c"
  have r0: "fst ?r = fst (schema_resume lc (env (m_name md)) md started c0)"
    by (rule schema_resume_result_cache_free)
  show ?case
    using Cons [of "snd ?r"] by (simp add: p r0 case_prod_beta)
qed

lemma schema_resume_all_state:
  assumes "\<And>md. md \<in> fst ` set ps \<Longrightarrow> \<not> m_private md \<Longrightarrow> m_name md \<noteq> k"
  shows "sc_cache (snd (schema_resume_all lc env ps c)) k = sc_cache c k"
  using assms
proof (induction ps arbitrary: c)
  case Nil
  then show ?case by simp
next
  case (Cons p ps)
  obtain md started where p: "p = (md, started)" by (cases p)
  let ?r = "schema_resume lc (env (m_name md)) md started c"
  have "m_private md \<or> m_name md \<noteq> k"
    using Cons.prems [of md] by (auto simp: p)
  then have 1: "sc_cache (snd ?r) k = sc_cache c k"
    by (auto simp: schema_resume_other_keys schema_resume_private)
  have 2: "sc_cache (snd (schema_resume_all lc env ps (snd ?r))) k = sc_cache (snd ?r) k"
    by (rule Cons.IH) (use Cons.prems in auto)
  have st: "snd (schema_resume_all lc env (p # ps) c) = snd (schema_resume_all lc env ps (snd ?r))"
    by (simp add: p case_prod_beta)
  show ?case
    unfolding st using 1 2 by simp
qed

lemma fetchSchemasWithCache_state:
  assumes "\<And>md. md \<in> set mds \<Longrightarrow> \<not> m_private md \<Longrightarrow> m_name md \<noteq> k"
  shows "sc_cache (snd (fetchSchemasWithCache lc cfg env mds tok c)) k = sc_cache c k"
proof (cases "mds = []")
  case True
  then show ?thesis by (simp add: fetchSchemasWithCache_def)
next
  case False
  let ?s = "schema_start_all cfg env tok mds c"
  have keys: "fst ` set (fst ?s) = set mds"
    by (simp add: schema_start_all_result image_image)
  have "snd (fetchSchemasWithCache lc cfg env mds tok c) = snd (schema_resume_all lc env (fst ?s) (snd ?s))"
    using False by (simp add: fetchSchemasWithCache_def case_prod_beta)
  moreover have "sc_cache (snd (schema_resume_all lc env (fst ?s) (snd ?s))) k = sc_cache (snd ?s) k"
    by (rule schema_resume_all_state) (use assms keys in auto)
  ultimately show ?thesis by simp
qed

lemma fetchSchemasWithCache_result:
  "fst (fetchSchemasWithCache lc cfg env mds tok c)
     = store_schemas (map (\<lambda>md. fst (fetchSchema lc cfg (env (m_name md)) md tok c)) mds) []"
proof (cases "mds = []")
  case True
  then show ?thesis by (simp add: fetchSchemasWithCache_def)
next
  case False
  let ?s = "schema_start_all cfg env tok mds c"
  have "fst (fetchSchemasWithCache lc cfg env mds tok c)
      = store_schemas (fst (schema_resume_all lc env (fst ?s) (snd ?s))) []"
    using False by (simp add: fetchSchemasWithCache_def case_prod_beta)
  also have "fst (schema_resume_all lc env (fst ?s) (snd ?s))
      = map (\<lambda>(md, started). fst (schema_resume lc (env (m_name md)) md started c)) (fst ?s)"
    by (rule schema_resume_all_result)
  also have "\<dots> = map (\<lambda>md. fst (schema_resume lc (env (m_name md)) md
        (fst (fetchSchema_start cfg (sio_lookup_time (env (m_name md))) md tok c)) c)) mds"
    by (simp add: schema_start_all_result o_def)
  also have "\<dots> = map (\<lambda>md. fst (fetchSchema lc cfg (env (m_name md)) md tok c)) mds"
    by (simp add: fetchSchema_result [of _ _ _ _ _ c c])
  finally show ?thesis .
qed

subsection \<open>The maps of a run\<close>

lemma Map_set_fresh: "k \<notin> fst ` set m \<Longrightarrow> Map_set m k v = m @ [(k, v)]"
  by (induction m) auto

lemma store_metadata_fresh:
  assumes "\<And>n md. n \<in> set ns \<Longrightarrow> metadata_of (f n) = Some md \<Longrightarrow> m_name md = n"
    and "distinct ns" and "set ns \<inter> fst ` set acc = {}"
  shows "store_metadata (map f ns) acc
     = acc @ List.map_filter (\<lambda>n. map_option (Pair n) (metadata_of (f n))) ns"
  using assms
proof (induction ns arbitrary: acc)
  case Nil
  then show ?case by simp
next
  case (Cons n ns)
  show ?case
  proof (cases "f n")
    case (MetadataFailure x err)
    with Cons.prems have "store_metadata (map f (n # ns)) acc = store_metadata (map f ns) acc"
      by simp
    also have "\<dots> = acc @ List.map_filter (\<lambda>n. map_option (Pair n) (metadata_of (f n))) ns"
      by (rule Cons.IH) (use Cons.prems in auto)
    finally show ?thesis using MetadataFailure by simp
  next
    case (MetadataSuccess md cached)
    then have nm: "m_name md = n" using Cons.prems(1) [of n md] by simp
    from Cons.prems have fresh: "n \<notin> fst ` set acc" by auto
    have "store_metadata (map f (n # ns)) acc = store_metadata (map f ns) (acc @ [(n, md)])"
      using MetadataSuccess nm fresh by (simp add: Map_set_fresh)
    also have "\<dots> = (acc @ [(n, md)]) @ List.map_filter (\<lambda>n. map_option (Pair n) (metadata_of (f n))) ns"
      by (rule Cons.IH) (use Cons.prems in auto)
    finally show ?thesis using MetadataSuccess by simp
  qed
qed

lemma store_schemas_fresh:
  assumes "\<And>md n s c. md \<in> set mds \<Longrightarrow> g md = SchemaSuccess n s c \<Longrightarrow> n = m_name md"
    and "distinct (map m_name mds)" and "m_name ` set mds \<inter> fst ` set acc = {}"
  shows "store_schemas (map g mds) acc
     = acc @ List.map_filter (\<lambda>md. map_option (Pair (m_name md)) (schema_of (g md))) mds"
  using assms
proof (induction mds arbitrary: acc)
  case Nil
  then show ?case by simp
next
  case (Cons md mds)
  show ?case
  proof (cases "g md")
    case (SchemaFailure x err)
    with Cons.prems have "store_schemas (map g (md # mds)) acc = store_schemas (map g mds) acc"
      by simp
    also have "\<dots> = acc @ List.map_filter (\<lambda>md. map_option (Pair (m_name md)) (schema_of (g md))) mds"
      by (rule Cons.IH) (use Cons.prems in auto)
    finally show ?thesis using SchemaFailure by simp
  next
    case (SchemaSuccess n s c)
    then have nm: "n = m_name md" using Cons.prems(1) [of md n s c] by simp
    from Cons.prems have fresh: "m_name md \<notin> fst ` set acc" by auto
    have "store_schemas (map g (md # mds)) acc = store_schemas (map g mds) (acc @ [(m_name md, s)])"
      using SchemaSuccess nm fresh by (simp add: Map_set_fresh)
    also have "\<dots> = (acc @ [(m_name md, s)])
        @ List.map_filter (\<lambda>md. map_option (Pair (m_name md)) (schema_of (g md))) mds"
      by (rule Cons.IH) (use Cons.prems in auto)
    finally show ?thesis using SchemaSuccess nm by simp
  qed
qed

lemma set_map_filter: "set (List.map_filter f xs) = {y. \<exists>x\<in>set xs. f x = Some y}"
  by (induction xs) (auto split: option.splits)

lemma map_filter_compose:
  "List.map_filter f (List.map_filter g xs)
     = List.map_filter (\<lambda>x. case g x of None \<Rightarrow> None | Some y \<Rightarrow> f y) xs"
  by (induction xs) (auto split: option.splits)

lemma map_filter_cong:
  "(\<And>x. x \<in> set xs \<Longrightarrow> f x = g x) \<Longrightarrow> List.map_filter f xs = List.map_filter g xs"
  by (induction xs) (auto split: option.splits)

lemma map_fst_map_filter_Pair:
  "map fst (List.map_filter (\<lambda>x. map_option (Pair (k x)) (f x)) xs)
     = map k (filter (\<lambda>x. f x \<noteq> None) xs)"
  by (induction xs) (auto split: option.splits)

lemma combine_map_filter:
  "combineMetadataAndSchemas mm sm skip
     = List.map_filter (\<lambda>(n, md).
          if \<not> skip \<and> map_of sm n = None then None
          else Some (make_space_info md (case map_of sm n of None \<Rightarrow> [] | Some s \<Rightarrow> s_tools s))) mm"
  by (induction mm sm skip rule: combineMetadataAndSchemas.induct) (simp_all add: Let_def)

lemma metadata_outcome_name:
  "keyed_by_name (spaceMetadataCache st) \<Longrightarrow>
   metadata_of (metadata_outcome cfg env tok st n) = Some md \<Longrightarrow> m_name md = n"
  by (cases "metadata_outcome cfg env tok st n")
     (auto simp: metadata_outcome_def dest: fetchSpaceMetadata_success_name)

lemma schema_outcome_name:
  "schema_outcome lc cfg env tok st md = SchemaSuccess n s c \<Longrightarrow> n = m_name md"
  by (auto simp: schema_outcome_def dest: fetchSchema_success_name)

lemma metadata_map_of_run:
  assumes d: "distinct spaceNames" and conc: "0 < DISCOVERY_CONCURRENCY cfg"
    and keyed: "keyed_by_name (spaceMetadataCache st)" and ne: "spaceNames \<noteq> []"
  shows "map_option fst (fetchSpaceMetadataWithCache cfg (metadata_env env) spaceNames tok
            (spaceMetadataCache st))
     = Some (List.map_filter
          (\<lambda>n. map_option (Pair n) (metadata_of (metadata_outcome cfg env tok st n))) spaceNames)"
proof -
  let ?bs = "batches_of (nat (DISCOVERY_CONCURRENCY cfg)) spaceNames"
  have cc: "concat ?bs = spaceNames"
    using conc by (simp add: concat_batches_of)
  have "fst (fetch_batches cfg (metadata_env env) tok ?bs [] (spaceMetadataCache st))
      = store_metadata (map (metadata_outcome cfg env tok st) spaceNames) []"
    using d by (simp add: fetch_batches_result cc metadata_outcome_def [abs_def])
  also have "\<dots> = [] @ List.map_filter
          (\<lambda>n. map_option (Pair n) (metadata_of (metadata_outcome cfg env tok st n))) spaceNames"
    by (rule store_metadata_fresh) (use d keyed in \<open>auto dest: metadata_outcome_name\<close>)
  finally show ?thesis
    using conc ne by (simp add: fetchSpaceMetadataWithCache_def make_batches_def)
qed

lemma schema_lookup_of_run:
  fixes lc cfg env tok st spaceNames
  defines "f \<equiv> metadata_outcome cfg env tok st"
    and "g \<equiv> schema_outcome lc cfg env tok st"
  defines "mm \<equiv> List.map_filter (\<lambda>n. map_option (Pair n) (metadata_of (f n))) spaceNames"
  defines "gm \<equiv> filter is_gradio_metadata (map snd mm)"
  defines "sm \<equiv> List.map_filter (\<lambda>md. map_option (Pair (m_name md)) (schema_of (g md))) gm"
  assumes d: "distinct spaceNames" and keyed: "keyed_by_name (spaceMetadataCache st)"
    and n: "n \<in> set spaceNames" and md: "metadata_of (f n) = Some md"
  shows "distinct (map m_name gm)"
    and "map_of sm n = (if is_gradio_metadata md then schema_of (g md) else None)"
proof -
  have nm: "m_name md' = n'" if "metadata_of (f n') = Some md'" for n' md'
    using that keyed unfolding f_def by (rule metadata_outcome_name [rotated])
  have mm_set: "set mm = {(n', md'). n' \<in> set spaceNames \<and> metadata_of (f n') = Some md'}"
    by (auto simp: mm_def set_map_filter)
  have gm_eq: "gm = List.map_filter
        (\<lambda>n'. case metadata_of (f n') of None \<Rightarrow> None
                | Some md' \<Rightarrow> if is_gradio_metadata md' then Some md' else None) spaceNames"
    unfolding gm_def mm_def by (induction spaceNames) (auto split: option.splits)
  have gm_names: "map m_name gm = filter (\<lambda>n'. case metadata_of (f n') of None \<Rightarrow> False
        | Some md' \<Rightarrow> is_gradio_metadata md') spaceNames"
    unfolding gm_eq using nm by (induction spaceNames) (auto split: option.splits)
  show dg: "distinct (map m_name gm)"
    unfolding gm_names using d by simp
  have gm_set: "set gm = {md'. \<exists>n'\<in>set spaceNames. metadata_of (f n') = Some md' \<and> is_gradio_metadata md'}"
    unfolding gm_eq by (auto simp: set_map_filter split: option.splits if_splits)
  have uniq: "md' = md" if "md' \<in> set gm" "m_name md' = n" for md'
  proof -
    from that(1) obtain n' where "metadata_of (f n') = Some md'" by (auto simp: gm_set)
    with nm [of n' md'] that(2) md show ?thesis by simp
  qed
  have keys: "map fst sm = map m_name (filter (\<lambda>md'. schema_of (g md') \<noteq> None) gm)"
    unfolding sm_def by (rule map_fst_map_filter_Pair)
  have ds: "distinct (map fst sm)"
    unfolding keys using dg by (simp add: distinct_map_filter)
  have sm_set: "set sm = {(m_name md', s) | md' s. md' \<in> set gm \<and> schema_of (g md') = Some s}"
    unfolding sm_def by (auto simp: set_map_filter)
  show "map_of sm n = (if is_gradio_metadata md then schema_of (g md) else None)"
  proof (cases "is_gradio_metadata md \<and> schema_of (g md) \<noteq> None")
    case True
    then obtain s where s: "schema_of (g md) = Some s" by auto
    from True n md have "md \<in> set gm" by (auto simp: gm_set)
    with s nm [OF md] have "(n, s) \<in> set sm" by (auto simp: sm_set)
    with ds have "map_of sm n = Some s" by (rule map_of_is_SomeI)
    with True s show ?thesis by simp
  next
    case False
    have "n \<notin> fst ` set sm"
    proof
      assume "n \<in> fst ` set sm"
      then obtain md' s where "md' \<in> set gm" "m_name md' = n" "schema_of (g md') = Some s"
        by (auto simp: sm_set)
      with uniq [of md'] have "md \<in> set gm" "schema_of (g md) = Some s" by auto
      with False show False by (auto simp: gm_set)
    qed
    then have "map_of sm n = None" by (simp add: map_of_eq_None_iff)
    with False show ?thesis by auto
  qed
qed

section \<open>The discovery run\<close>

lemma make_space_info_name [simp]: "gs_name (make_space_info md tools) = m_name md"
  by (simp add: make_space_info_def)

lemma getGradioSpaces_unfold:
  assumes "spaceNames \<noteq> []"
    and "fetchSpaceMetadataWithCache cfg (metadata_env env) spaceNames tok (spaceMetadataCache st)
           = Some (mm, mc)"
  shows "map_option fst (getGradioSpaces lc cfg env spaceNames tok opts st)
     = Some (combineMetadataAndSchemas mm
         (if \<not> skip_requested opts \<and> length (filter is_gradio_metadata (map snd mm)) > 0
          then fst (fetchSchemasWithCache lc cfg (schema_env env)
                      (filter is_gradio_metadata (map snd mm)) tok (schemaCache st))
          else [])
         (skip_requested opts))"
proof -
  define gm where "gm = filter is_gradio_metadata (map snd mm)"
  have "map_option fst (getGradioSpaces lc cfg env spaceNames tok opts st)
     = Some (combineMetadataAndSchemas mm
         (if \<not> skip_requested opts \<and> length gm > 0
          then fst (fetchSchemasWithCache lc cfg (schema_env env) gm tok (schemaCache st))
          else [])
         (skip_requested opts))"
    unfolding getGradioSpaces_def Let_def assms(2) option.case prod.case gm_def [symmetric]
    using assms(1) by (simp add: case_prod_beta)
  then show ?thesis by (simp only: gm_def)
qed

lemma getGradioSpaces_records:
  assumes d: "distinct spaceNames" and conc: "0 < DISCOVERY_CONCURRENCY cfg"
    and keyed: "keyed_by_name (spaceMetadataCache st)"
  shows "map_option fst (getGradioSpaces lc cfg env spaceNames tok opts st)
     = Some (List.map_filter (space_record lc cfg env tok (skip_requested opts) st) spaceNames)"
proof (cases "spaceNames = []")
  case True
  then show ?thesis by (simp add: getGradioSpaces_def)
next
  case ne: False
  let ?f = "metadata_outcome cfg env tok st"
  let ?g = "schema_outcome lc cfg env tok st"
  let ?skip = "skip_requested opts"
  let ?mm = "List.map_filter (\<lambda>n. map_option (Pair n) (metadata_of (?f n))) spaceNames"
  let ?gm = "filter is_gradio_metadata (map snd ?mm)"
  let ?sm = "List.map_filter (\<lambda>md. map_option (Pair (m_name md)) (schema_of (?g md))) ?gm"
  obtain mm mc where run: "fetchSpaceMetadataWithCache cfg (metadata_env env) spaceNames tok
            (spaceMetadataCache st) = Some (mm, mc)" and mm: "mm = ?mm"
    using metadata_map_of_run [OF d conc keyed ne, of env tok] by (auto simp: map_option_case split: option.splits)
  have dg: "distinct (map m_name ?gm)"
  proof (cases "?mm")
    case Nil
    then show ?thesis by simp
  next
    case (Cons p ps)
    then have "p \<in> set ?mm" by simp
    then obtain n md where "n \<in> set spaceNames" "metadata_of (?f n) = Some md"
      by (auto simp: set_map_filter)
    then show ?thesis
      using schema_lookup_of_run(1) [OF d keyed, of n cfg env tok md] by simp
  qed
  define gm where "gm = ?gm"
  define sm where "sm = (if \<not> ?skip \<and> length gm > 0
      then fst (fetchSchemasWithCache lc cfg (schema_env env) gm tok (schemaCache st)) else [])"
  have sm_noskip: "sm = ?sm" if "\<not> ?skip"
  proof -
    have "store_schemas (map ?g gm) []
        = [] @ List.map_filter (\<lambda>md. map_option (Pair (m_name md)) (schema_of (?g md))) gm"
      by (rule store_schemas_fresh) (use dg in \<open>auto simp: gm_def dest: schema_outcome_name\<close>)
    then have full: "fst (fetchSchemasWithCache lc cfg (schema_env env) gm tok (schemaCache st))
        = List.map_filter (\<lambda>md. map_option (Pair (m_name md)) (schema_of (?g md))) gm"
      by (simp add: fetchSchemasWithCache_result schema_outcome_def [abs_def])
    have "sm = List.map_filter (\<lambda>md. map_option (Pair (m_name md)) (schema_of (?g md))) gm"
    proof (cases "gm = []")
      case True
      then show ?thesis by (simp add: sm_def)
    next
      case False
      with that full show ?thesis by (simp add: sm_def)
    qed
    then show ?thesis by (simp only: gm_def)
  qed
  have sm_skip: "sm = []" if "?skip"
    using that by (simp add: sm_def)
  have res: "map_option fst (getGradioSpaces lc cfg env spaceNames tok opts st)
      = Some (combineMetadataAndSchemas ?mm sm ?skip)"
    using getGradioSpaces_unfold [OF ne run, of lc opts] unfolding mm sm_def gm_def .
  have "combineMetadataAndSchemas ?mm sm ?skip
      = List.map_filter (\<lambda>n. case map_option (Pair n) (metadata_of (?f n)) of
            None \<Rightarrow> None
          | Some (n', md) \<Rightarrow>
              if \<not> ?skip \<and> map_of sm n' = None then None
              else Some (make_space_info md
                     (case map_of sm n' of None \<Rightarrow> [] | Some s \<Rightarrow> s_tools s))) spaceNames"
    by (simp add: combine_map_filter map_filter_compose case_prod_beta)
  also have "\<dots> = List.map_filter (space_record lc cfg env tok ?skip st) spaceNames"
  proof (rule map_filter_cong)
    fix n assume n: "n \<in> set spaceNames"
    show "(case map_option (Pair n) (metadata_of (?f n)) of
            None \<Rightarrow> None
          | Some (n', md) \<Rightarrow>
              if \<not> ?skip \<and> map_of sm n' = None then None
              else Some (make_space_info md
                     (case map_of sm n' of None \<Rightarrow> [] | Some s \<Rightarrow> s_tools s)))
        = space_record lc cfg env tok ?skip st n"
    proof (cases "?f n")
      case (MetadataFailure x err)
      then show ?thesis by (simp add: space_record_def)
    next
      case (MetadataSuccess md cached)
      then have mo: "metadata_of (?f n) = Some md" by simp
      show ?thesis
      proof (cases ?skip)
        case True
        with MetadataSuccess sm_skip show ?thesis by (simp add: space_record_def)
      next
        case False
        have look: "map_of sm n = (if is_gradio_metadata md then schema_of (?g md) else None)"
          using schema_lookup_of_run(2) [OF d keyed n mo] sm_noskip [OF False] by simp
        show ?thesis
        proof (cases "is_gradio_metadata md")
          case ng: False
          with False MetadataSuccess look show ?thesis by (simp add: space_record_def)
        next
          case gr: True
          show ?thesis
            using False MetadataSuccess look gr
            by (cases "?g md") (simp_all add: space_record_def)
        qed
      qed
    qed
  qed
  finally show ?thesis using res by simp
qed

lemma space_record_name:
  assumes "keyed_by_name (spaceMetadataCache st)" and "space_record lc cfg env tok skip st n = Some r"
  shows "gs_name r = n"
proof (cases "metadata_outcome cfg env tok st n")
  case (MetadataFailure x err)
  with assms(2) show ?thesis by (simp add: space_record_def)
next
  case (MetadataSuccess md cached)
  then have "metadata_of (metadata_outcome cfg env tok st n) = Some md" by simp
  with assms(1) have nm: "m_name md = n" by (rule metadata_outcome_name)
  from assms(2) MetadataSuccess have "gs_name r = m_name md"
    by (auto simp: space_record_def split: if_splits SchemaResult.splits)
  with nm show ?thesis by simp
qed

lemma space_record_gradio:
  "space_record lc cfg env tok False st n = Some r \<Longrightarrow> gs_sdk r = js ''gradio'' \<and> gs_subdomain r \<noteq> []"
  by (cases "metadata_outcome cfg env tok st n")
     (auto simp: space_record_def make_space_info_def is_gradio_metadata_def
           split: if_splits SchemaResult.splits)

lemma space_record_None_iff:
  "skip \<or> \<not> not_a_gradio_space cfg env tok st n \<Longrightarrow>
   (space_record lc cfg env tok skip st n = None) = space_fails lc cfg env tok skip st n"
  by (cases "metadata_outcome cfg env tok st n")
     (auto simp: space_record_def space_fails_def not_a_gradio_space_def
           split: SchemaResult.splits)

lemma map_name_map_filter:
  assumes "\<And>n r. n \<in> set ns \<Longrightarrow> f n = Some r \<Longrightarrow> gs_name r = n"
  shows "map gs_name (List.map_filter f ns) = filter (\<lambda>n. f n \<noteq> None) ns"
  using assms by (induction ns) (auto split: option.splits)

text \<open>
  C6.  The space names are distinct, the concurrency is positive, and every
  entry of the metadata cache is stored under its own name.  Then the discovery
  returns, and it returns, in the order of the names, exactly the records that
  the spaces are owed on the strength of their own fetches alone: what one
  space gets does not depend on the fetches of the others.  When moreover
  schemas are skipped or no metadata reply names something other than a Gradio
  space, the names of the records are the names of the spaces that do not fail,
  and there are \<open>N - k\<close> records when \<open>k\<close> of the \<open>N\<close> spaces fail.
\<close>

theorem discovery_failure_isolation:
  assumes d: "distinct spaceNames" and conc: "0 < DISCOVERY_CONCURRENCY cfg"
    and keyed: "keyed_by_name (spaceMetadataCache st)"
  shows "map_option fst (getGradioSpaces lc cfg env spaceNames tok opts st)
       = Some (List.map_filter (space_record lc cfg env tok (skip_requested opts) st) spaceNames)
    \<and> ((\<forall>n\<in>set spaceNames. skip_requested opts \<or> \<not> not_a_gradio_space cfg env tok st n)
        \<longrightarrow> map gs_name (List.map_filter (space_record lc cfg env tok (skip_requested opts) st) spaceNames)
              = filter (\<lambda>n. \<not> space_fails lc cfg env tok (skip_requested opts) st n) spaceNames
            \<and> length (List.map_filter (space_record lc cfg env tok (skip_requested opts) st) spaceNames)
              = length spaceNames
                - length (filter (space_fails lc cfg env tok (skip_requested opts) st) spaceNames))"
proof (intro conjI impI)
  show "map_option fst (getGradioSpaces lc cfg env spaceNames tok opts st)
       = Some (List.map_filter (space_record lc cfg env tok (skip_requested opts) st) spaceNames)"
    using d conc keyed by (rule getGradioSpaces_records)
next
  let ?sr = "space_record lc cfg env tok (skip_requested opts) st"
  let ?fails = "space_fails lc cfg env tok (skip_requested opts) st"
  assume g: "\<forall>n\<in>set spaceNames. skip_requested opts \<or> \<not> not_a_gradio_space cfg env tok st n"
  have "map gs_name (List.map_filter ?sr spaceNames) = filter (\<lambda>n. ?sr n \<noteq> None) spaceNames"
    by (rule map_name_map_filter) (use keyed in \<open>auto dest: space_record_name\<close>)
  also have "\<dots> = filter (\<lambda>n. \<not> ?fails n) spaceNames"
  proof (rule filter_cong [OF refl])
    fix n assume "n \<in> set spaceNames"
    with g have "skip_requested opts \<or> \<not> not_a_gradio_space cfg env tok st n" by blast
    then have "(?sr n = None) = ?fails n" by (rule space_record_None_iff)
    then show "(?sr n \<noteq> None) = (\<not> ?fails n)" by simp
  qed
  finally show names: "map gs_name (List.map_filter ?sr spaceNames)
      = filter (\<lambda>n. \<not> ?fails n) spaceNames" .
  have "length (List.map_filter ?sr spaceNames) = length (map gs_name (List.map_filter ?sr spaceNames))"
    by simp
  also have "\<dots> = length (filter (\<lambda>n. \<not> ?fails n) spaceNames)"
    by (simp only: names)
  also have "\<dots> = length spaceNames - length (filter ?fails spaceNames)"
    using sum_length_filter_compl [of ?fails spaceNames] by simp
  finally show "length (List.map_filter ?sr spaceNames)
      = length spaceNames - length (filter ?fails spaceNames)" .
qed

lemma flaky_metadata:
  "metadata_outcome default_config flaky_env None empty_caches (js ''a/broken'')
     = MetadataFailure (js ''a/broken'') NetworkError"
  "metadata_outcome default_config flaky_env None empty_caches (js ''b/demo'')
     = MetadataSuccess (new_metadata 5 (js ''b/demo'') None demo_space_info) False"
  "metadata_outcome default_config flaky_env None empty_caches (js ''c/noschema'')
     = MetadataSuccess (new_metadata 5 (js ''c/noschema'') None demo_space_info) False"
  by (simp_all add: metadata_outcome_def fetchSpaceMetadata_def fetchSpaceMetadata_start_def
        SpaceMetadataCache_get_def SpaceMetadataCache_getForRevalidation_def empty_caches_def
        SpaceMetadataCache_empty_def metadata_resume_def fetchSpaceMetadata_finish_def
        flaky_env_def response_ok_def Let_def demo_space_info_def new_metadata_def)

lemma flaky_schema:
  "schema_outcome lc default_config flaky_env None empty_caches
       (new_metadata 5 (js ''c/noschema'') None demo_space_info)
     = SchemaFailure (js ''c/noschema'') (HttpError 503)"
  "\<exists>schema. schema_outcome lc default_config flaky_env None empty_caches
       (new_metadata 5 (js ''b/demo'') None demo_space_info)
     = SchemaSuccess (js ''b/demo'') schema False"
  by (simp_all add: schema_outcome_def fetchSchema_def fetchSchema_start_def SchemaCache_get_def
        empty_caches_def SchemaCache_empty_def schema_resume_def fetchSchema_finish_def
        flaky_env_def response_ok_def Let_def new_metadata_def demo_space_info_def
        predict_tool_json_def parseSchemaResponse_def)

theorem discovery_failure_isolation_witness:
  "map_option (map gs_name \<circ> fst)
     (getGradioSpaces keep_other_units default_config flaky_env [js ''a/broken'', js ''b/demo'', js ''c/noschema''] None None
        empty_caches)
   = Some [js ''b/demo'']"
proof -
  let ?names = "[js ''a/broken'', js ''b/demo'', js ''c/noschema'']"
  have d: "distinct ?names" by simp
  have c: "0 < DISCOVERY_CONCURRENCY default_config" by (simp add: default_config_def)
  have k: "keyed_by_name (spaceMetadataCache empty_caches)"
    by (simp add: keyed_by_name_def empty_caches_def SpaceMetadataCache_empty_def)
  have gr: "is_gradio_metadata (new_metadata 5 n None demo_space_info)" for n
    by (simp add: is_gradio_metadata_def new_metadata_def demo_space_info_def)
  have g: "\<forall>n\<in>set ?names. skip_requested None
             \<or> \<not> not_a_gradio_space default_config flaky_env None empty_caches n"
    by (simp add: not_a_gradio_space_def flaky_metadata gr)
  obtain schema where s: "schema_outcome keep_other_units default_config flaky_env None empty_caches
       (new_metadata 5 (js ''b/demo'') None demo_space_info) = SchemaSuccess (js ''b/demo'') schema False"
    using flaky_schema(2) by blast
  have f: "filter (\<lambda>n. \<not> space_fails keep_other_units default_config flaky_env None (skip_requested None) empty_caches n)
             ?names = [js ''b/demo'']"
    by (simp add: space_fails_def flaky_metadata flaky_schema(1) s gr skip_requested_def)
  from discovery_failure_isolation [OF d c k, of keep_other_units flaky_env None None] g
  have res: "map_option fst (getGradioSpaces keep_other_units default_config flaky_env ?names None None empty_caches)
       = Some (List.map_filter (space_record keep_other_units default_config flaky_env None (skip_requested None)
                 empty_caches) ?names)"
    and names: "map gs_name (List.map_filter (space_record keep_other_units default_config flaky_env None
                 (skip_requested None) empty_caches) ?names)
       = filter (\<lambda>n. \<not> space_fails keep_other_units default_config flaky_env None (skip_requested None) empty_caches n)
           ?names"
    by blast+
  have "map_option (map gs_name \<circ> fst)
     (getGradioSpaces keep_other_units default_config flaky_env ?names None None empty_caches)
     = map_option (map gs_name)
         (map_option fst (getGradioSpaces keep_other_units default_config flaky_env ?names None None empty_caches))"
    by (simp add: option.map_comp)
  also have "\<dots> = Some [js ''b/demo'']"
    by (simp only: res names f option.map)
  finally show ?thesis .
qed

section \<open>Private spaces and the caches\<close>

lemma fetchSpaceMetadataWithCache_all_public:
  assumes "all_public c" and "fetchSpaceMetadataWithCache cfg env names tok c = Some (mm, c')"
  shows "all_public c'"
proof -
  from assms(2) obtain batches where "fetch_batches cfg env tok batches [] c = (mm, c')"
    by (auto simp: fetchSpaceMetadataWithCache_def split: option.splits)
  then have "c' = snd (fetch_batches cfg env tok batches [] c)" by simp
  with assms(1) show ?thesis
    using fetch_batches_state [of c cfg env tok batches "[]"] by simp
qed

lemma getGradioSpaces_all_public:
  assumes "all_public (spaceMetadataCache st)"
    and "getGradioSpaces lc cfg env names tok opts st = Some (rs, st')"
  shows "all_public (spaceMetadataCache st')"
proof (cases "names = []")
  case True
  with assms show ?thesis by (simp add: getGradioSpaces_def)
next
  case False
  with assms(2) obtain mm mc where
    run: "fetchSpaceMetadataWithCache cfg (metadata_env env) names tok (spaceMetadataCache st)
            = Some (mm, mc)"
    and st': "spaceMetadataCache st' = mc"
    by (auto simp: getGradioSpaces_def Let_def case_prod_beta split: option.splits)
  from assms(1) run have "all_public mc" by (rule fetchSpaceMetadataWithCache_all_public)
  with st' show ?thesis by simp
qed

text \<open>
  C1.  The entries of the metadata cache stay public: when every entry of the
  cache is the entry of a public space, this is so again after a metadata
  fetch, after its first half alone (a fetch that is waiting for its reply),
  and after all the fetches of a discovery run.  A fetch that returns private
  metadata has not taken it from the cache and has left the entries of the
  metadata cache, and so its size, as they were; a schema fetch for private
  metadata leaves the entries and the size of the schema cache as they were;
  the same holds for a second fetch of the space that again returns private
  metadata.  The schema fetches of a run change the schema cache only under the
  names of public metadata.  The privacy check \<^verbatim>\<open>isSpacePrivate\<close>
  keeps the entries public as well, and leaves the cache as it is when its
  answer is that the space is private.
\<close>

theorem private_spaces_never_cached:
  assumes pub: "all_public c"
  shows "all_public (snd (fetchSpaceMetadata_start cfg t spaceName hfToken c))
    \<and> all_public (snd (fetchSpaceMetadata cfg io spaceName hfToken c))
    \<and> (\<forall>names metadataMap c'.
          fetchSpaceMetadataWithCache cfg env names hfToken c = Some (metadataMap, c')
          \<longrightarrow> all_public c')
    \<and> (\<forall>metadata cached.
          fst (fetchSpaceMetadata cfg io spaceName hfToken c) = MetadataSuccess metadata cached
          \<and> m_private metadata
          \<longrightarrow> \<not> cached
            \<and> mc_cache (snd (fetchSpaceMetadata cfg io spaceName hfToken c)) = mc_cache c
            \<and> SpaceMetadataCache_size (snd (fetchSpaceMetadata cfg io spaceName hfToken c))
                = SpaceMetadataCache_size c
            \<and> sc_cache (snd (fetchSchema lc cfg sio metadata hfToken sc)) = sc_cache sc
            \<and> SchemaCache_size (snd (fetchSchema lc cfg sio metadata hfToken sc))
                = SchemaCache_size sc
            \<and> (\<forall>metadata' cached'.
                  fst (fetchSpaceMetadata cfg io' spaceName hfToken
                         (snd (fetchSpaceMetadata cfg io spaceName hfToken c)))
                    = MetadataSuccess metadata' cached'
                  \<and> m_private metadata'
                  \<longrightarrow> SpaceMetadataCache_size
                        (snd (fetchSpaceMetadata cfg io' spaceName hfToken
                                (snd (fetchSpaceMetadata cfg io spaceName hfToken c))))
                        = SpaceMetadataCache_size c
                    \<and> SchemaCache_size
                        (snd (fetchSchema lc cfg sio' metadata' hfToken
                                (snd (fetchSchema lc cfg sio metadata hfToken sc))))
                        = SchemaCache_size sc))
    \<and> (\<forall>k. sc_cache (snd (fetchSchemasWithCache lc cfg senv metadataList hfToken sc)) k \<noteq> sc_cache sc k
          \<longrightarrow> (\<exists>metadata\<in>set metadataList. \<not> m_private metadata \<and> m_name metadata = k))
    \<and> all_public (snd (isSpacePrivate_start cfg t spaceName hfToken c))
    \<and> all_public (snd (isSpacePrivate_finish t' spaceName info c))
    \<and> (fst (isSpacePrivate_finish t' spaceName info c)
          \<longrightarrow> snd (isSpacePrivate_finish t' spaceName info c) = c)"
proof -
  let ?c1 = "snd (fetchSpaceMetadata cfg io spaceName hfToken c)"
  have 1: "all_public (snd (fetchSpaceMetadata_start cfg t spaceName hfToken c))"
    using pub by simp
  have 2: "all_public ?c1"
    using pub by (rule fetchSpaceMetadata_all_public)
  have 3: "\<forall>names metadataMap c'.
          fetchSpaceMetadataWithCache cfg env names hfToken c = Some (metadataMap, c')
          \<longrightarrow> all_public c'"
    using pub by (blast intro: fetchSpaceMetadataWithCache_all_public)
  have 4: "\<not> cached
            \<and> mc_cache ?c1 = mc_cache c
            \<and> SpaceMetadataCache_size ?c1 = SpaceMetadataCache_size c
            \<and> sc_cache (snd (fetchSchema lc cfg sio metadata hfToken sc)) = sc_cache sc
            \<and> SchemaCache_size (snd (fetchSchema lc cfg sio metadata hfToken sc))
                = SchemaCache_size sc
            \<and> (\<forall>metadata' cached'.
                  fst (fetchSpaceMetadata cfg io' spaceName hfToken ?c1)
                    = MetadataSuccess metadata' cached'
                  \<and> m_private metadata'
                  \<longrightarrow> SpaceMetadataCache_size (snd (fetchSpaceMetadata cfg io' spaceName hfToken ?c1))
                        = SpaceMetadataCache_size c
                    \<and> SchemaCache_size
                        (snd (fetchSchema lc cfg sio' metadata' hfToken
                                (snd (fetchSchema lc cfg sio metadata hfToken sc))))
                        = SchemaCache_size sc)"
    if res: "fst (fetchSpaceMetadata cfg io spaceName hfToken c) = MetadataSuccess metadata cached"
      and priv: "m_private metadata" for metadata cached
  proof -
    have a: "\<not> cached" using pub res priv by (rule fetchSpaceMetadata_private(2))
    have b: "mc_cache ?c1 = mc_cache c" using pub res priv by (rule fetchSpaceMetadata_private(1))
    then have b': "SpaceMetadataCache_size ?c1 = SpaceMetadataCache_size c"
      by (simp add: SpaceMetadataCache_size_def)
    have s: "sc_cache (snd (fetchSchema lc cfg sio metadata hfToken sc)) = sc_cache sc"
      using priv by (rule fetchSchema_private)
    then have s': "SchemaCache_size (snd (fetchSchema lc cfg sio metadata hfToken sc)) = SchemaCache_size sc"
      by (simp add: SchemaCache_size_def)
    have again: "SpaceMetadataCache_size (snd (fetchSpaceMetadata cfg io' spaceName hfToken ?c1))
                        = SpaceMetadataCache_size c
                    \<and> SchemaCache_size
                        (snd (fetchSchema lc cfg sio' metadata' hfToken
                                (snd (fetchSchema lc cfg sio metadata hfToken sc))))
                        = SchemaCache_size sc"
      if res': "fst (fetchSpaceMetadata cfg io' spaceName hfToken ?c1) = MetadataSuccess metadata' cached'"
        and priv': "m_private metadata'" for metadata' cached'
    proof -
      have "mc_cache (snd (fetchSpaceMetadata cfg io' spaceName hfToken ?c1)) = mc_cache ?c1"
        using 2 res' priv' by (rule fetchSpaceMetadata_private(1))
      with b have m: "SpaceMetadataCache_size (snd (fetchSpaceMetadata cfg io' spaceName hfToken ?c1))
          = SpaceMetadataCache_size c"
        by (simp add: SpaceMetadataCache_size_def)
      have "sc_cache (snd (fetchSchema lc cfg sio' metadata' hfToken
                (snd (fetchSchema lc cfg sio metadata hfToken sc))))
          = sc_cache (snd (fetchSchema lc cfg sio metadata hfToken sc))"
        using priv' by (rule fetchSchema_private)
      with s have "SchemaCache_size (snd (fetchSchema lc cfg sio' metadata' hfToken
                (snd (fetchSchema lc cfg sio metadata hfToken sc)))) = SchemaCache_size sc"
        by (simp add: SchemaCache_size_def)
      with m show ?thesis by simp
    qed
    from a b b' s s' again show ?thesis by blast
  qed
  have 5: "\<exists>metadata\<in>set metadataList. \<not> m_private metadata \<and> m_name metadata = k"
    if ch: "sc_cache (snd (fetchSchemasWithCache lc cfg senv metadataList hfToken sc)) k \<noteq> sc_cache sc k"
    for k
  proof (rule ccontr)
    assume "\<not> (\<exists>metadata\<in>set metadataList. \<not> m_private metadata \<and> m_name metadata = k)"
    then have "\<And>md. md \<in> set metadataList \<Longrightarrow> \<not> m_private md \<Longrightarrow> m_name md \<noteq> k" by blast
    then have "sc_cache (snd (fetchSchemasWithCache lc cfg senv metadataList hfToken sc)) k = sc_cache sc k"
      by (rule fetchSchemasWithCache_state)
    with ch show False by simp
  qed
  from 4 have all4: "\<forall>metadata cached.
          fst (fetchSpaceMetadata cfg io spaceName hfToken c) = MetadataSuccess metadata cached
          \<and> m_private metadata
          \<longrightarrow> \<not> cached
            \<and> mc_cache ?c1 = mc_cache c
            \<and> SpaceMetadataCache_size ?c1 = SpaceMetadataCache_size c
            \<and> sc_cache (snd (fetchSchema lc cfg sio metadata hfToken sc)) = sc_cache sc
            \<and> SchemaCache_size (snd (fetchSchema lc cfg sio metadata hfToken sc))
                = SchemaCache_size sc
            \<and> (\<forall>metadata' cached'.
                  fst (fetchSpaceMetadata cfg io' spaceName hfToken ?c1)
                    = MetadataSuccess metadata' cached'
                  \<and> m_private metadata'
                  \<longrightarrow> SpaceMetadataCache_size (snd (fetchSpaceMetadata cfg io' spaceName hfToken ?c1))
                        = SpaceMetadataCache_size c
                    \<and> SchemaCache_size
                        (snd (fetchSchema lc cfg sio' metadata' hfToken
                                (snd (fetchSchema lc cfg sio metadata hfToken sc))))
                        = SchemaCache_size sc)"
    by blast
  from 5 have all5: "\<forall>k. sc_cache (snd (fetchSchemasWithCache lc cfg senv metadataList hfToken sc)) k \<noteq> sc_cache sc k
          \<longrightarrow> (\<exists>metadata\<in>set metadataList. \<not> m_private metadata \<and> m_name metadata = k)"
    by blast
  have 6: "all_public (snd (isSpacePrivate_start cfg t spaceName hfToken c))"
    using pub by (simp add: isSpacePrivate_start_def all_public_def case_prod_beta split: option.splits)
  have 7: "all_public (snd (isSpacePrivate_finish t' spaceName info c))"
    using pub by (simp add: isSpacePrivate_finish_def Let_def all_public_set split: option.splits)
  have 8: "fst (isSpacePrivate_finish t' spaceName info c)
          \<longrightarrow> snd (isSpacePrivate_finish t' spaceName info c) = c"
    by (simp add: isSpacePrivate_finish_def Let_def split: option.splits)
  show ?thesis
    using 1 2 3 all4 all5 6 7 8 by (intro conjI)
qed

lemma private_fetch:
  "fetchSpaceMetadata default_config private_io (js ''acme/secret'') None SpaceMetadataCache_empty
     = (MetadataSuccess private_metadata False,
        SpaceMetadataCache_empty\<lparr>mc_misses := 1\<rparr>)"
  by (simp add: fetchSpaceMetadata_def fetchSpaceMetadata_start_def SpaceMetadataCache_get_def
        SpaceMetadataCache_getForRevalidation_def SpaceMetadataCache_empty_def metadata_resume_def
        fetchSpaceMetadata_finish_def private_io_def response_ok_def private_space_info_def
        new_metadata_def private_metadata_def Let_def metadata_request_def)

theorem private_spaces_never_cached_witness:
  "all_public SpaceMetadataCache_empty
   \<and> fst (fetchSpaceMetadata default_config private_io (js ''acme/secret'') None SpaceMetadataCache_empty)
       = MetadataSuccess private_metadata False
   \<and> m_private private_metadata
   \<and> SpaceMetadataCache_size
       (snd (fetchSpaceMetadata default_config private_io (js ''acme/secret'') None SpaceMetadataCache_empty))
       = 0
   \<and> SchemaCache_size
       (snd (fetchSchema keep_other_units default_config private_schema_io private_metadata None SchemaCache_empty))
       = 0"
proof -
  have p: "all_public SpaceMetadataCache_empty"
    by (simp add: all_public_def SpaceMetadataCache_empty_def)
  have r: "fst (fetchSpaceMetadata default_config private_io (js ''acme/secret'') None SpaceMetadataCache_empty)
       = MetadataSuccess private_metadata False"
    by (simp add: private_fetch)
  have m: "m_private private_metadata"
    by (simp add: private_metadata_def)
  have z: "SpaceMetadataCache_size SpaceMetadataCache_empty = 0"
    and zs: "SchemaCache_size SchemaCache_empty = 0"
    by (simp_all add: SpaceMetadataCache_size_def SpaceMetadataCache_empty_def
          SchemaCache_size_def SchemaCache_empty_def)
  from private_spaces_never_cached [OF p, where lc = keep_other_units
      and cfg = default_config and io = private_io
      and spaceName = "js ''acme/secret''" and hfToken = None and sio = private_schema_io
      and sc = SchemaCache_empty] r m z zs
  show ?thesis using p by metis
qed

section \<open>The filter of the discovery\<close>

text \<open>With schemas, every record is the record of a Gradio space with a
  subdomain.\<close>

lemma getGradioSpaces_filter_with_schemas:
  assumes "distinct spaceNames" and "0 < DISCOVERY_CONCURRENCY cfg"
    and "keyed_by_name (spaceMetadataCache st)" and "\<not> skip_requested opts"
    and "getGradioSpaces lc cfg env spaceNames tok opts st = Some (rs, st')" and "r \<in> set rs"
  shows "gs_sdk r = js ''gradio'' \<and> gs_subdomain r \<noteq> []"
proof -
  have "map_option fst (getGradioSpaces lc cfg env spaceNames tok opts st)
       = Some (List.map_filter (space_record lc cfg env tok (skip_requested opts) st) spaceNames)"
    using assms(1-3) by (rule getGradioSpaces_records)
  with assms(4,5) have "rs = List.map_filter (space_record lc cfg env tok False st) spaceNames"
    by simp
  with assms(6) obtain n where "space_record lc cfg env tok False st n = Some r"
    by (auto simp: set_map_filter)
  then show ?thesis by (rule space_record_gradio)
qed

lemma batches_of_single: "0 < n \<Longrightarrow> batches_of n [x] = [[x]]"
  by (simp add: batches_of.simps [of n "[x]"] batches_of.simps [of n "[]"])

text \<open>
  C7.  With \<^verbatim>\<open>skipSchemas: true\<close> the combination runs over all the
  metadata and not over the filtered list: for a space whose metadata says
  \<^verbatim>\<open>sdk: 'static'\<close>, the discovery returns a record with that sdk.
\<close>

theorem skipSchemas_returns_non_gradio_space:
  "map_option fst
     (getGradioSpaces keep_other_units default_config static_site_env [js ''acme/site''] None
        (Some skip_schemas_options) empty_caches)
   = Some [\<lparr>gs_name = js ''acme/site'', gs_subdomain = js ''acme-site'', gs_id = js ''gradio_acme-site'',
            gs_emoji = discovery_emoji, gs_private = False, gs_sdk = js ''static'', gs_tools = [],
            gs_runtime = None, gs_cached = False\<rparr>]"
  by (simp add: getGradioSpaces_def fetchSpaceMetadataWithCache_def make_batches_def
        default_config_def batches_of_single fetch_batch_def static_site_env_def skip_schemas_options_def
        empty_caches_def SpaceMetadataCache_empty_def fetchSpaceMetadata_start_def
        SpaceMetadataCache_get_def SpaceMetadataCache_getForRevalidation_def
        metadata_resume_def fetchSpaceMetadata_finish_def response_ok_def new_metadata_def
        static_site_info_def Let_def SpaceMetadataCache_set_def skip_requested_def make_space_info_def
        is_gradio_metadata_def)

end
